theory Spec2Isabelle
  imports Main "HOL-Library.Word"
begin

section \<open>JavaScript strings, byte arrays and thrown values\<close>

text \<open>
  A JavaScript string is a sequence of 16-bit UTF-16 code units, a \<open>Uint8Array\<close> a
  sequence of bytes. String literals of the source are written \<open>js ''...''\<close>.
\<close>

type_synonym byte = "8 word"
type_synonym code_unit = "16 word"
type_synonym jsstring = "code_unit list"

definition js :: "string \<Rightarrow> jsstring" where
  "js s = map (\<lambda>c. of_nat (of_char c)) s"

text \<open>
  A thrown value. \<open>DecryptionError\<close> is the class of \<open>encryption.ts\<close>; every other
  exception (\<open>TypeError\<close>, the \<open>OperationError\<close> of WebCrypto, a store error, an
  \<open>Error\<close> of the source) is \<open>Err name message\<close>.
\<close>

datatype exn = DecryptionError jsstring | Err string jsstring

fun message :: "exn \<Rightarrow> jsstring" where
  "message (DecryptionError m) = m"
| "message (Err n m) = m"


subsection \<open>\<open>String.prototype.split\<close> with a one-character separator\<close>

fun js_split :: "code_unit \<Rightarrow> jsstring \<Rightarrow> jsstring list" where
  "js_split sep [] = [[]]"
| "js_split sep (c # cs) =
     (if c = sep then [] # js_split sep cs
      else (case js_split sep cs of
              [] \<Rightarrow> [[c]]
            | seg # segs \<Rightarrow> (c # seg) # segs))"

subsection \<open>The regular expression \<open>/.{1,2}/g\<close>\<close>

text \<open>
  Without the \<open>s\<close> flag the dot matches every code unit but the four line terminators,
  so \<open>hexString.match(/.{1,2}/g)\<close> cuts the string into greedy chunks of one or two
  code units and passes over line terminators. \<open>match\<close> returns \<open>null\<close> when there is
  no chunk at all; \<open>fromHexString\<close> below turns that case into the \<open>TypeError\<close> of
  \<open>null.map\<close>.
\<close>

definition is_line_terminator :: "code_unit \<Rightarrow> bool" where
  "is_line_terminator u \<longleftrightarrow> u = 0x0A \<or> u = 0x0D \<or> u = 0x2028 \<or> u = 0x2029"

fun match_chunks :: "jsstring \<Rightarrow> jsstring list" where
  "match_chunks [] = []"
| "match_chunks [a] = (if is_line_terminator a then [] else [[a]])"
| "match_chunks (a # b # cs) =
     (if is_line_terminator a then match_chunks (b # cs)
      else if is_line_terminator b then [a] # match_chunks cs
      else [a, b] # match_chunks cs)"

subsection \<open>\<open>parseInt(chunk, 16)\<close> and the conversion to a \<open>Uint8Array\<close> element\<close>

text \<open>
  \<open>parseInt\<close> skips leading white space, reads an optional sign, drops a \<open>0x\<close> prefix
  (radix 16), and reads the longest run of hexadecimal digits; the result is \<open>NaN\<close>
  (here \<open>None\<close>) when that run is empty. It never throws.
\<close>

definition is_white_space :: "code_unit \<Rightarrow> bool" where
  "is_white_space u \<longleftrightarrow>
     is_line_terminator u \<or> u = 0x09 \<or> u = 0x0B \<or> u = 0x0C \<or> u = 0x20 \<or> u = 0xA0
     \<or> u = 0x1680 \<or> (0x2000 \<le> unat u \<and> unat u \<le> 0x200A) \<or> u = 0x202F \<or> u = 0x205F
     \<or> u = 0x3000 \<or> u = 0xFEFF"

definition hex_digit_val :: "code_unit \<Rightarrow> nat option" where
  "hex_digit_val u =
     (let n = unat u in
      if 48 \<le> n \<and> n \<le> 57 then Some (n - 48)
      else if 97 \<le> n \<and> n \<le> 102 then Some (n - 87)
      else if 65 \<le> n \<and> n \<le> 70 then Some (n - 55)
      else None)"

definition is_hex_digit :: "code_unit \<Rightarrow> bool" where
  "is_hex_digit u \<longleftrightarrow> hex_digit_val u \<noteq> None"

definition digits_value :: "jsstring \<Rightarrow> nat" where
  "digits_value z = foldl (\<lambda>acc d. 16 * acc + the (hex_digit_val d)) 0 z"

definition parseInt16 :: "jsstring \<Rightarrow> int option" where
  "parseInt16 inputString =
     (let S = dropWhile is_white_space inputString;
          sign = (case S of c # _ \<Rightarrow> if c = 0x2D then - 1 else 1 | [] \<Rightarrow> (1::int));
          S1 = (case S of c # rest \<Rightarrow> if c = 0x2B \<or> c = 0x2D then rest else S | [] \<Rightarrow> S);
          S2 = (case S1 of
                  c # d # rest \<Rightarrow> if c = 0x30 \<and> (d = 0x78 \<or> d = 0x58) then rest else S1
                | _ \<Rightarrow> S1);
          Z = takeWhile is_hex_digit S2
      in if Z = [] then None else Some (sign * int (digits_value Z)))"

text \<open>\<open>new Uint8Array(numbers)\<close> stores \<open>NaN\<close> as 0 and every integer modulo 256.\<close>

fun toUint8 :: "int option \<Rightarrow> byte" where
  "toUint8 None = 0"
| "toUint8 (Some n) = word_of_int n"

subsection \<open>\<open>fromHexString\<close> and \<open>toHexString\<close> (encryption.ts, lines 170-181)\<close>

definition fromHexString :: "jsstring \<Rightarrow> exn + byte list" where
  "fromHexString hexString =
     (case match_chunks hexString of
        [] \<Rightarrow> Inl (Err ''TypeError'' (js ''null has no property map''))
      | chunks \<Rightarrow> Inr (map (\<lambda>byte. toUint8 (parseInt16 byte)) chunks))"

definition hex_digit_char :: "nat \<Rightarrow> code_unit" where
  "hex_digit_char n = (if n < 10 then of_nat (48 + n) else of_nat (87 + n))"

function number_toString16 :: "nat \<Rightarrow> jsstring" where
  "number_toString16 n =
     (if n < 16 then [hex_digit_char n]
      else number_toString16 (n div 16) @ [hex_digit_char (n mod 16)])"
  by pat_completeness auto
termination
  by (relation "measure id") auto

definition padStart2 :: "jsstring \<Rightarrow> jsstring" where
  "padStart2 s = replicate (2 - length s) 0x30 @ s"

definition toHexString :: "byte list \<Rightarrow> jsstring" where
  "toHexString bytes = foldl (\<lambda>str byte. str @ padStart2 (number_toString16 (unat byte))) [] bytes"

declare number_toString16.simps [simp del]

section \<open>\<open>TextEncoder\<close> and \<open>TextDecoder\<close>\<close>

text \<open>
  \<open>encryption.ts\<close> turns strings into bytes with \<open>new TextEncoder().encode\<close> and bytes
  into strings with \<open>new TextDecoder().decode\<close>. Both are platform functions, modelled
  here after the Encoding Standard: the encoder first replaces every unpaired surrogate by
  U+FFFD, the decoder is the UTF-8 decoder in replacement mode (\<open>fatal\<close> is false) and,
  as \<open>ignoreBOM\<close> is false, drops a leading U+FEFF from its output.
\<close>
definition is_lead_surrogate :: "code_unit \<Rightarrow> bool" where
  "is_lead_surrogate u \<longleftrightarrow> 0xD800 \<le> unat u \<and> unat u \<le> 0xDBFF"

definition is_trail_surrogate :: "code_unit \<Rightarrow> bool" where
  "is_trail_surrogate u \<longleftrightarrow> 0xDC00 \<le> unat u \<and> unat u \<le> 0xDFFF"

fun code_points :: "jsstring \<Rightarrow> nat list" where
  "code_points [] = []"
| "code_points [u] = (if is_lead_surrogate u \<or> is_trail_surrogate u then [0xFFFD] else [unat u])"
| "code_points (u # v # cs) =
     (if is_lead_surrogate u then
        (if is_trail_surrogate v
         then (0x10000 + (unat u - 0xD800) * 0x400 + (unat v - 0xDC00)) # code_points cs
         else 0xFFFD # code_points (v # cs))
      else if is_trail_surrogate u then 0xFFFD # code_points (v # cs)
      else unat u # code_points (v # cs))"

definition utf8_encode_cp :: "nat \<Rightarrow> byte list" where
  "utf8_encode_cp c =
     (if c < 0x80 then [of_nat c]
      else if c < 0x800 then [of_nat (0xC0 + c div 64), of_nat (0x80 + c mod 64)]
      else if c < 0x10000 then
        [of_nat (0xE0 + c div 4096), of_nat (0x80 + c div 64 mod 64), of_nat (0x80 + c mod 64)]
      else
        [of_nat (0xF0 + c div 262144), of_nat (0x80 + c div 4096 mod 64),
         of_nat (0x80 + c div 64 mod 64), of_nat (0x80 + c mod 64)])"

definition TextEncoder_encode :: "jsstring \<Rightarrow> byte list" where
  "TextEncoder_encode s = concat (map utf8_encode_cp (code_points s))"

text \<open>
  The decoder's reaction to a byte read while no sequence is open: either a code point is
  emitted at once (an ASCII byte, or U+FFFD for a byte that cannot start a sequence), or a
  sequence begins with its first bits, the number of bytes needed and the bounds of the
  next byte.
\<close>

datatype lead_result = Emit nat | Begin nat nat nat nat

definition utf8_lead :: "nat \<Rightarrow> lead_result" where
  "utf8_lead n =
     (if n \<le> 0x7F then Emit n
      else if 0xC2 \<le> n \<and> n \<le> 0xDF then Begin (n mod 32) 1 0x80 0xBF
      else if 0xE0 \<le> n \<and> n \<le> 0xEF then
        Begin (n mod 16) 2 (if n = 0xE0 then 0xA0 else 0x80) (if n = 0xED then 0x9F else 0xBF)
      else if 0xF0 \<le> n \<and> n \<le> 0xF4 then
        Begin (n mod 8) 3 (if n = 0xF0 then 0x90 else 0x80) (if n = 0xF4 then 0x8F else 0xBF)
      else Emit 0xFFFD)"

fun utf8_decode :: "nat \<Rightarrow> nat \<Rightarrow> nat \<Rightarrow> nat \<Rightarrow> nat \<Rightarrow> byte list \<Rightarrow> nat list" where
  "utf8_decode cp seen needed lo hi [] = (if needed \<noteq> 0 then [0xFFFD] else [])"
| "utf8_decode cp seen needed lo hi (b # bs) =
     (if needed = 0 then
        (case utf8_lead (unat b) of
           Emit c \<Rightarrow> c # utf8_decode 0 0 0 0x80 0xBF bs
         | Begin cp' needed' lo' hi' \<Rightarrow> utf8_decode cp' 0 needed' lo' hi' bs)
      else if unat b < lo \<or> hi < unat b then
        0xFFFD #
        (case utf8_lead (unat b) of
           Emit c \<Rightarrow> c # utf8_decode 0 0 0 0x80 0xBF bs
         | Begin cp' needed' lo' hi' \<Rightarrow> utf8_decode cp' 0 needed' lo' hi' bs)
      else if seen + 1 \<noteq> needed then
        utf8_decode (cp * 64 + unat b mod 64) (seen + 1) needed 0x80 0xBF bs
      else (cp * 64 + unat b mod 64) # utf8_decode 0 0 0 0x80 0xBF bs)"

definition utf16_units :: "nat \<Rightarrow> jsstring" where
  "utf16_units c =
     (if c < 0x10000 then [of_nat c]
      else [of_nat (0xD800 + (c - 0x10000) div 0x400), of_nat (0xDC00 + (c - 0x10000) mod 0x400)])"

definition TextDecoder_decode :: "byte list \<Rightarrow> jsstring" where
  "TextDecoder_decode bytes =
     (let output = utf8_decode 0 0 0 0x80 0xBF bytes;
          output' = (case output of c # rest \<Rightarrow> if c = 0xFEFF then rest else output | [] \<Rightarrow> [])
      in concat (map utf16_units output'))"

fun isWellFormed :: "jsstring \<Rightarrow> bool" where
  "isWellFormed [] = True"
| "isWellFormed [u] = (\<not> is_lead_surrogate u \<and> \<not> is_trail_surrogate u)"
| "isWellFormed (u # v # cs) =
     (if is_lead_surrogate u then is_trail_surrogate v \<and> isWellFormed cs
      else \<not> is_trail_surrogate u \<and> isWellFormed (v # cs))"

declare utf8_decode.simps [simp del]

section \<open>The cipher engine (encryption.ts)\<close>

subsection \<open>\<open>CryptoInterface\<close> (lines 14-41)\<close>

text \<open>
  The helper receives its \<open>crypto\<close> object as a constructor argument. The five
  \<open>subtle\<close> operations the source calls are its fields; each returns its result or the
  exception its promise rejects with. \<open>'k\<close> is the opaque \<open>CryptoKey\<close>. The arguments the
  source fixes (\<open>"raw"\<close>, \<open>"SHA-256"\<close>, the usages) are left out.
  \<open>getRandomValues\<close> reads the next \<open>n\<close> bytes of an entropy tape and moves the
  position, so the filled array always has the length of the array passed in.
\<close>
datatype key_algorithm = PBKDF2 | AES_GCM

record 'k CryptoInterface =
  subtle_digest :: "byte list \<Rightarrow> exn + byte list"
  subtle_importKey :: "key_algorithm \<Rightarrow> byte list \<Rightarrow> exn + 'k"
  subtle_deriveBits :: "byte list \<Rightarrow> nat \<Rightarrow> 'k \<Rightarrow> nat \<Rightarrow> exn + byte list"
  subtle_encrypt :: "byte list \<Rightarrow> 'k \<Rightarrow> byte list \<Rightarrow> exn + byte list"
  subtle_decrypt :: "byte list \<Rightarrow> 'k \<Rightarrow> byte list \<Rightarrow> exn + byte list"
  random_source :: "nat \<Rightarrow> byte"

definition getRandomValues :: "'k CryptoInterface \<Rightarrow> nat \<Rightarrow> nat \<Rightarrow> byte list \<times> nat" where
  "getRandomValues c pos n = (map (random_source c) [pos ..< pos + n], pos + n)"

subsection \<open>\<open>EncryptionHelper\<close> (lines 87-256)\<close>

datatype passphrase_mode = Derive | Raw

record 'k EncryptionHelper =
  keyPromise :: "(exn + 'k) option"
  passphrase :: jsstring
  crypto :: "'k CryptoInterface"
  passphraseMode :: passphrase_mode

definition new_EncryptionHelper ::
  "jsstring \<Rightarrow> 'k CryptoInterface \<Rightarrow> passphrase_mode \<Rightarrow> 'k EncryptionHelper" where
  "new_EncryptionHelper pw c m =
     \<lparr>keyPromise = None, passphrase = pw, crypto = c, passphraseMode = m\<rparr>"

text \<open>
  \<open>deriveKey\<close> is the body of the async function of \<open>getKey\<close> (lines 119-165);
  \<open>getKey\<close> stores its promise, settled either way, in \<open>keyPromise\<close> on the first
  call and returns the stored promise afterwards.
\<close>

definition deriveKey :: "'k EncryptionHelper \<Rightarrow> exn + 'k" where
  "deriveKey h =
     (let pwUtf8 = TextEncoder_encode (passphrase h);
          keyMaterial =
            (if passphraseMode h = Derive then
               (case subtle_importKey (crypto h) PBKDF2 pwUtf8 of
                  Inl e \<Rightarrow> Inl e
                | Inr baseKey \<Rightarrow> subtle_deriveBits (crypto h) pwUtf8 100000 baseKey 256)
             else subtle_digest (crypto h) pwUtf8)
      in case keyMaterial of
           Inl e \<Rightarrow> Inl e
         | Inr km \<Rightarrow> subtle_importKey (crypto h) AES_GCM km)"

definition getKey :: "'k EncryptionHelper \<Rightarrow> (exn + 'k) \<times> 'k EncryptionHelper" where
  "getKey h =
     (case keyPromise h of
        Some p \<Rightarrow> (p, h)
      | None \<Rightarrow> (let p = deriveKey h in (p, h\<lparr>keyPromise := Some p\<rparr>)))"

definition encrypt ::
  "'k EncryptionHelper \<Rightarrow> nat \<Rightarrow> jsstring \<Rightarrow> (exn + jsstring) \<times> 'k EncryptionHelper \<times> nat" where
  "encrypt h pos data =
     (case getKey h of
        (Inl e, h') \<Rightarrow> (Inl e, h', pos)
      | (Inr key, h') \<Rightarrow>
          (let encoded = TextEncoder_encode data;
               (iv, pos') = getRandomValues (crypto h) pos 12
           in case subtle_encrypt (crypto h) iv key encoded of
                Inl e \<Rightarrow> (Inl e, h', pos')
              | Inr ciphertext \<Rightarrow>
                  (Inr (toHexString iv @ js ''|'' @ toHexString ciphertext), h', pos')))"

text \<open>
  \<open>Array.prototype.map\<close> with a callback that may throw: the first exception ends it.
\<close>

fun map_results :: "('a \<Rightarrow> exn + 'b) \<Rightarrow> 'a list \<Rightarrow> exn + 'b list" where
  "map_results f [] = Inr []"
| "map_results f (x # xs) =
     (case f x of
        Inl e \<Rightarrow> Inl e
      | Inr y \<Rightarrow> (case map_results f xs of Inl e \<Rightarrow> Inl e | Inr ys \<Rightarrow> Inr (y # ys)))"

text \<open>
  \<open>decrypt_body\<close> is the \<open>try\<close> block of \<open>decrypt\<close> (lines 237-249) after
  \<open>getKey\<close>. The destructuring \<open>[iv, ciphertext]\<close> takes the first two decoded
  segments; with a single segment \<open>ciphertext\<close> is \<open>undefined\<close>, which
  \<open>subtle.decrypt\<close> refuses with a \<open>TypeError\<close> when it converts its arguments.
  \<open>decrypt\<close> wraps every exception of the block in a \<open>DecryptionError\<close>.
\<close>

definition decrypt_body :: "'k EncryptionHelper \<Rightarrow> exn + 'k \<Rightarrow> jsstring \<Rightarrow> exn + jsstring" where
  "decrypt_body h k data =
     (case k of
        Inl e \<Rightarrow> Inl e
      | Inr key \<Rightarrow>
          (case map_results fromHexString (js_split 0x7C data) of
             Inl e \<Rightarrow> Inl e
           | Inr (iv # ciphertext # _) \<Rightarrow>
               (case subtle_decrypt (crypto h) iv key ciphertext of
                  Inl e \<Rightarrow> Inl e
                | Inr decrypted \<Rightarrow> Inr (TextDecoder_decode decrypted))
           | Inr _ \<Rightarrow> Inl (Err ''TypeError'' (js ''data is not a BufferSource''))))"

definition decrypt ::
  "'k EncryptionHelper \<Rightarrow> jsstring \<Rightarrow> (exn + jsstring) \<times> 'k EncryptionHelper" where
  "decrypt h data =
     (case getKey h of
        (k, h') \<Rightarrow>
          (case decrypt_body h k data of
             Inl e \<Rightarrow> (Inl (DecryptionError (js ''Could not decrypt: '' @ message e)), h')
           | Inr s \<Rightarrow> (Inr s, h')))"

subsection \<open>A small \<open>CryptoInterface\<close> for concrete runs\<close>

text \<open>
  A stand-in for WebCrypto with the same interface: the key is the imported material, a
  message is masked with a byte derived from key and nonce, and that byte is appended as
  the tag, which \<open>subtle_decrypt\<close> checks.
\<close>

definition toy_pad :: "byte list \<Rightarrow> byte list \<Rightarrow> byte" where
  "toy_pad iv key = foldr (+) (key @ iv) 0"

definition toy_crypto :: "(byte list) CryptoInterface" where
  "toy_crypto =
     \<lparr>subtle_digest = (\<lambda>d. Inr d),
      subtle_importKey = (\<lambda>alg d. Inr d),
      subtle_deriveBits = (\<lambda>salt iterations baseKey len. Inr baseKey),
      subtle_encrypt = (\<lambda>iv key pt. Inr (map (\<lambda>b. b + toy_pad iv key) pt @ [toy_pad iv key])),
      subtle_decrypt = (\<lambda>iv key ct.
         if ct \<noteq> [] \<and> last ct = toy_pad iv key
         then Inr (map (\<lambda>b. b - toy_pad iv key) (butlast ct))
         else Inl (Err ''OperationError'' [])),
      random_source = (\<lambda>i. of_nat i)\<rparr>"

subsection \<open>Auxiliary notions for the properties of the cipher engine\<close>

text \<open>
  \<open>hex2\<close> is the two-digit rendering of a byte, \<open>scalar\<close> a Unicode scalar value.
  \<open>helper_ok\<close> is the invariant of \<open>keyPromise\<close>: empty, or the promise of this
  helper's own derivation; the constructor establishes it and \<open>encrypt\<close> and \<open>decrypt\<close>
  keep it, leaving the helper \<open>cached\<close>. \<open>aead_correct\<close> is the contract of the
  platform's AES-GCM for one key: with a 96-bit nonce, encryption succeeds with a non-empty
  result (it carries the tag) that decryption under the same nonce and key opens.
  \<open>toy_helper\<close> and \<open>broken_helper\<close> are concrete helpers: the second one's key import
  fails.
\<close>

definition hex2 :: "byte \<Rightarrow> jsstring" where
  "hex2 b = [hex_digit_char (unat b div 16), hex_digit_char (unat b mod 16)]"

definition scalar :: "nat \<Rightarrow> bool" where
  "scalar c \<longleftrightarrow> c < 0x110000 \<and> \<not> (0xD800 \<le> c \<and> c \<le> 0xDFFF)"

definition helper_ok :: "'k EncryptionHelper \<Rightarrow> bool" where
  "helper_ok h \<longleftrightarrow> keyPromise h = None \<or> keyPromise h = Some (deriveKey h)"

definition cached :: "'k EncryptionHelper \<Rightarrow> 'k EncryptionHelper" where
  "cached h = h\<lparr>keyPromise := Some (deriveKey h)\<rparr>"

definition aead_correct :: "'k CryptoInterface \<Rightarrow> 'k \<Rightarrow> bool" where
  "aead_correct c key \<longleftrightarrow>
     (\<forall>iv pt. length iv = 12 \<longrightarrow>
        (\<exists>ct. ct \<noteq> [] \<and> subtle_encrypt c iv key pt = Inr ct
           \<and> subtle_decrypt c iv key ct = Inr pt))"

definition toy_helper :: "(byte list) EncryptionHelper" where
  "toy_helper = new_EncryptionHelper (js ''pw'') toy_crypto Raw"




section \<open>The encrypted store (index.ts, \<open>EncryptedPouch\<close>)\<close>

subsection \<open>JSON values and objects\<close>

text \<open>
  A document is a JavaScript object: its own enumerable properties in insertion order.
  \<open>define_property\<close> is the definition of a property by an object literal or a spread;
  \<open>assign_property\<close> is the assignment \<open>o[key] = value\<close>, which for the key
  \<open>__proto__\<close> calls the inherited setter and creates no own property.
\<close>

datatype json =
  JNull | JBool bool | JNum int | JStr jsstring | JArr "json list" | JObj "(jsstring \<times> json) list"

type_synonym obj = "(jsstring \<times> json) list"

definition obj_get :: "obj \<Rightarrow> jsstring \<Rightarrow> json option" where
  "obj_get ob key = map_of ob key"

fun define_property :: "jsstring \<Rightarrow> json \<Rightarrow> obj \<Rightarrow> obj" where
  "define_property key v [] = [(key, v)]"
| "define_property key v ((k, w) # rest) =
     (if k = key then (k, v) # rest else (k, w) # define_property key v rest)"

definition assign_property :: "jsstring \<Rightarrow> json \<Rightarrow> obj \<Rightarrow> obj" where
  "assign_property key v ob = (if key = js ''__proto__'' then ob else define_property key v ob)"

text \<open>The truth value of a property read (\<open>None\<close> is \<open>undefined\<close>).\<close>

fun truthy :: "json option \<Rightarrow> bool" where
  "truthy None = False"
| "truthy (Some JNull) = False"
| "truthy (Some (JBool b)) = b"
| "truthy (Some (JNum n)) = (n \<noteq> 0)"
| "truthy (Some (JStr s)) = (s \<noteq> [])"
| "truthy (Some (JArr xs)) = True"
| "truthy (Some (JObj kvs)) = True"

function number_toString10 :: "nat \<Rightarrow> jsstring" where
  "number_toString10 n =
     (if n < 10 then [of_nat (48 + n)]
      else number_toString10 (n div 10) @ [of_nat (48 + n mod 10)])"
  by pat_completeness auto
termination
  by (relation "measure id") auto

declare number_toString10.simps [simp del]

text \<open>
  The own enumerable properties a spread \<open>...value\<close> copies: those of an object, the
  indices of an array or of a string, none of a number, a boolean or \<open>null\<close>.
\<close>

definition spread_props :: "json \<Rightarrow> obj" where
  "spread_props v =
     (case v of
        JObj kvs \<Rightarrow> kvs
      | JArr xs \<Rightarrow> zip (map number_toString10 [0 ..< length xs]) xs
      | JStr s \<Rightarrow> zip (map number_toString10 [0 ..< length s]) (map (\<lambda>c. JStr [c]) s)
      | _ \<Rightarrow> [])"

definition spread_into :: "obj \<Rightarrow> obj \<Rightarrow> obj" where
  "spread_into target props = foldl (\<lambda>ob (k, v). define_property k v ob) target props"

definition startsWith :: "jsstring \<Rightarrow> jsstring \<Rightarrow> bool" where
  "startsWith s prefix \<longleftrightarrow> take (length prefix) s = prefix"

fun indexOf :: "jsstring \<Rightarrow> code_unit \<Rightarrow> nat option" where
  "indexOf [] c = None"
| "indexOf (x # xs) c = (if x = c then Some 0 else map_option Suc (indexOf xs c))"

subsection \<open>The platform, the store and the listener\<close>

text \<open>
  \<open>JSON.stringify\<close>, \<open>JSON.parse\<close>, the string conversion of a template literal (used
  for values that are not strings) and \<open>crypto.randomUUID\<close> belong to the platform and
  are parameters of the model.
\<close>

record platform =
  JSON_stringify :: "obj \<Rightarrow> jsstring"
  JSON_parse :: "jsstring \<Rightarrow> exn + json"
  ToString :: "json \<Rightarrow> jsstring"
  randomUUID :: "nat \<Rightarrow> jsstring"

text \<open>
  A record as the store returns it (\<open>EncryptedDoc\<close> with \<open>_conflicts\<close>), a row of
  \<open>allDocs\<close>, and a change of the live feed. The store itself (PouchDB) is outside the
  repository: \<open>db\<close> holds what its operations answer.
\<close>

record raw_doc =
  raw_id :: jsstring
  raw_rev :: jsstring
  raw_d :: "json option"
  raw_conflicts :: "jsstring list option"

record row =
  row_id :: jsstring
  row_rev :: jsstring
  row_doc :: "raw_doc option"

record change =
  ch_id :: jsstring
  ch_deleted :: bool
  ch_doc :: "raw_doc option"

datatype sync_direction = Push | Pull

text \<open>
  The events of a sync handle: \<open>active\<close>, \<open>error\<close>, \<open>change\<close> with its direction
  and \<open>docs_written\<close>, and \<open>complete\<close> with the \<open>docs_written\<close> of its push and
  pull parts where defined.
\<close>

datatype sync_event =
  Active | SyncError exn | SyncChange sync_direction nat | Complete "nat option" "nat option"

record db =
  db_allDocs :: "exn + row list"
  db_get :: "jsstring \<Rightarrow> exn + raw_doc"
  db_get_rev :: "jsstring \<Rightarrow> jsstring \<Rightarrow> exn + raw_doc"
  db_put :: "obj \<Rightarrow> exn + jsstring"
  db_bulkDocs :: "(jsstring \<times> jsstring) list \<Rightarrow> exn + unit"

record error_event =
  ev_docId :: jsstring
  ev_error :: exn
  ev_rawDoc :: raw_doc

record conflict_info =
  ci_docId :: jsstring
  ci_table :: jsstring
  ci_id :: jsstring
  ci_currentRev :: jsstring
  ci_conflictRevs :: "jsstring list"
  ci_winner :: obj
  ci_losers :: "obj list"

text \<open>
  One invocation of a callback of the listener, with its argument. The callbacks
  \<open>onConflict\<close>, \<open>onSync\<close> and \<open>onError\<close> are optional; a callback is user code and
  may throw (\<open>listener_throws\<close>).
\<close>

datatype notif =
  OnChange "(jsstring \<times> obj list) list"
  | OnDelete "(jsstring \<times> jsstring list) list"
  | OnConflict "conflict_info list"
  | OnSync sync_direction nat
  | OnError "error_event list"

record PouchListener =
  has_onConflict :: bool
  has_onSync :: bool
  has_onError :: bool
  listener_throws :: "notif \<Rightarrow> exn option"

datatype log_entry = ConsoleError string exn | ConsoleWarn string exn

datatype store_write = DbPut obj | DbBulkDocs "(jsstring \<times> jsstring) list"

subsection \<open>The state of an \<open>EncryptedPouch\<close>\<close>

text \<open>
  The fields of the class (lines 233-239), followed by what the object has done to its
  surroundings so far: the listener invocations in order (\<open>calls\<close>), the console output,
  the writes handed to the store, the number of change subscriptions opened, and the
  positions on the platform's entropy tape and identifier supply.
\<close>

record 'k pouch =
  db :: db
  encryptionHelper :: "'k EncryptionHelper"
  listener :: PouchListener
  changesHandler :: "nat option"
  syncHandler :: "nat option"
  remoteUrl :: "jsstring option"
  calls :: "notif list"
  console :: "log_entry list"
  store_writes :: "store_write list"
  subscriptions :: nat
  syncs :: nat
  rng_pos :: nat
  uuid_count :: nat

definition default_listener :: PouchListener where
  "default_listener =
     \<lparr>has_onConflict = False, has_onSync = False, has_onError = False,
      listener_throws = (\<lambda>n. None)\<rparr>"

definition new_EncryptedPouch ::
  "db \<Rightarrow> 'k CryptoInterface \<Rightarrow> jsstring \<Rightarrow> PouchListener option \<Rightarrow> passphrase_mode option
   \<Rightarrow> 'k pouch" where
  "new_EncryptedPouch d c password l mode =
     \<lparr>db = d,
      encryptionHelper =
        new_EncryptionHelper password c (case mode of Some m \<Rightarrow> m | None \<Rightarrow> Derive),
      listener = (case l of Some x \<Rightarrow> x | None \<Rightarrow> default_listener),
      changesHandler = None, syncHandler = None, remoteUrl = None,
      calls = [], console = [], store_writes = [], subscriptions = 0, syncs = 0,
      rng_pos = 0, uuid_count = 0\<rparr>"

definition call_listener :: "notif \<Rightarrow> 'k pouch \<Rightarrow> (exn + unit) \<times> 'k pouch" where
  "call_listener n st =
     ((case listener_throws (listener st) n of Some e \<Rightarrow> Inl e | None \<Rightarrow> Inr ()),
      st\<lparr>calls := calls st @ [n]\<rparr>)"

definition notify_if :: "bool \<Rightarrow> notif \<Rightarrow> 'k pouch \<Rightarrow> (exn + unit) \<times> 'k pouch" where
  "notify_if cond n st = (if cond then call_listener n st else (Inr (), st))"

subsection \<open>\<open>parseFullId\<close>, \<open>decryptDoc\<close>, \<open>encryptDoc\<close> (lines 1002-1049)\<close>

definition parseFullId :: "jsstring \<Rightarrow> (jsstring \<times> jsstring) option" where
  "parseFullId fullId =
     (case indexOf fullId 0x5F of
        None \<Rightarrow> None
      | Some idx \<Rightarrow> Some (take idx fullId, drop (idx + 1) fullId))"

text \<open>
  \<open>encryptionHelper.decrypt\<close> applied to the property \<open>d\<close> as the store returned it.
  For a value that is not a string, \<open>data.split\<close> throws inside the \<open>try\<close> block of
  \<open>decrypt\<close>, after \<open>getKey\<close>.
\<close>

definition decrypt_property ::
  "'k EncryptionHelper \<Rightarrow> json option \<Rightarrow> (exn + jsstring) \<times> 'k EncryptionHelper" where
  "decrypt_property h d =
     (case d of
        Some (JStr data) \<Rightarrow> decrypt h data
      | _ \<Rightarrow>
          (case getKey h of
             (k, h') \<Rightarrow>
               (Inl (DecryptionError (js ''Could not decrypt: '' @
                  (case k of Inl e \<Rightarrow> message e | Inr key \<Rightarrow> js ''data.split is not a function''))),
                h')))"

definition decryptDoc :: "platform \<Rightarrow> raw_doc \<Rightarrow> 'k pouch \<Rightarrow> (exn + obj) \<times> 'k pouch" where
  "decryptDoc pf encryptedDoc st =
     (case parseFullId (raw_id encryptedDoc) of
        None \<Rightarrow> (Inl (Err ''Error'' (js ''Invalid ID format: '' @ raw_id encryptedDoc)), st)
      | Some (table, ident) \<Rightarrow>
          (case decrypt_property (encryptionHelper st) (raw_d encryptedDoc) of
             (r, h') \<Rightarrow>
               (case r of
                  Inl e \<Rightarrow> (Inl e, st\<lparr>encryptionHelper := h'\<rparr>)
                | Inr text \<Rightarrow>
                    (case JSON_parse pf text of
                       Inl e \<Rightarrow> (Inl e, st\<lparr>encryptionHelper := h'\<rparr>)
                     | Inr decrypted \<Rightarrow>
                         (Inr (spread_into
                                 [(js ''_id'', JStr ident), (js ''_rev'', JStr (raw_rev encryptedDoc))]
                                 (spread_props decrypted)),
                          st\<lparr>encryptionHelper := h'\<rparr>)))))"

text \<open>
  The loop of \<open>encryptDoc\<close> (lines 1023-1037) over \<open>Object.entries(doc)\<close>, on the pair
  of \<open>data\<close> and \<open>rootFields\<close>.
\<close>

definition encryptDoc_step :: "obj \<times> obj \<Rightarrow> jsstring \<times> json \<Rightarrow> obj \<times> obj" where
  "encryptDoc_step acc entry =
     (case (acc, entry) of
        ((data, rootFields), (key, v)) \<Rightarrow>
          if key = js ''_id'' \<or> key = js ''_rev'' then (data, rootFields)
          else if startsWith key (js ''_'') then (data, assign_property key v rootFields)
          else (assign_property key v data, rootFields))"

definition encryptDoc ::
  "platform \<Rightarrow> obj \<Rightarrow> jsstring \<Rightarrow> 'k pouch \<Rightarrow> (exn + obj) \<times> 'k pouch" where
  "encryptDoc pf doc fullId st =
     (case foldl encryptDoc_step ([], [(js ''_id'', JStr fullId)]) doc of
        (data, rootFields) \<Rightarrow>
          (case encrypt (encryptionHelper st) (rng_pos st) (JSON_stringify pf data) of
             (r, h', pos') \<Rightarrow>
               (case r of
                  Inl e \<Rightarrow> (Inl e, st\<lparr>encryptionHelper := h', rng_pos := pos'\<rparr>)
                | Inr c \<Rightarrow>
                    (Inr (assign_property (js ''d'') (JStr c) rootFields),
                     st\<lparr>encryptionHelper := h', rng_pos := pos'\<rparr>))))"

subsection \<open>\<open>put\<close> (lines 372-392)\<close>

definition template_string :: "platform \<Rightarrow> json option \<Rightarrow> jsstring" where
  "template_string pf v =
     (case v of
        Some (JStr s) \<Rightarrow> s
      | Some w \<Rightarrow> ToString pf w
      | None \<Rightarrow> js ''undefined'')"

definition put :: "platform \<Rightarrow> jsstring \<Rightarrow> obj \<Rightarrow> 'k pouch \<Rightarrow> (exn + obj) \<times> 'k pouch" where
  "put pf table doc0 st0 =
     (case (if \<not> truthy (obj_get doc0 (js ''_id''))
            then (assign_property (js ''_id'') (JStr (randomUUID pf (uuid_count st0))) doc0,
                  st0\<lparr>uuid_count := uuid_count st0 + 1\<rparr>)
            else (doc0, st0)) of
        (doc, st) \<Rightarrow>
          (let fullId = table @ js ''_'' @ template_string pf (obj_get doc (js ''_id'')) in
           case encryptDoc pf doc fullId st of
             (Inl e, st1) \<Rightarrow> (Inl e, st1)
           | (Inr encryptedDoc0, st1) \<Rightarrow>
               (let encryptedDoc =
                      (if truthy (obj_get doc (js ''_rev''))
                       then assign_property (js ''_rev'') (the (obj_get doc (js ''_rev''))) encryptedDoc0
                       else encryptedDoc0);
                    st2 = st1\<lparr>store_writes := store_writes st1 @ [DbPut encryptedDoc]\<rparr>
                in case db_put (db st2) encryptedDoc of
                     Inl e \<Rightarrow> (Inl e, st2)
                   | Inr revision \<Rightarrow>
                       (Inr (define_property (js ''_rev'') (JStr revision)
                               (case obj_get doc (js ''_id'') of
                                  Some i \<Rightarrow> define_property (js ''_id'') i (spread_into [] doc)
                                | None \<Rightarrow> spread_into [] doc)),
                        st2))))"

subsection \<open>\<open>buildConflictInfo\<close> (lines 957-1000)\<close>

definition conflict_error :: "jsstring \<Rightarrow> jsstring \<Rightarrow> exn \<Rightarrow> error_event" where
  "conflict_error fullId revision e =
     \<lparr>ev_docId = fullId @ js ''@'' @ revision, ev_error = e,
      ev_rawDoc = \<lparr>raw_id = fullId, raw_rev = revision, raw_d = None, raw_conflicts = None\<rparr>\<rparr>"

definition conflict_step ::
  "platform \<Rightarrow> jsstring \<Rightarrow> (obj list \<times> error_event list) \<times> 'k pouch \<Rightarrow> jsstring
   \<Rightarrow> (obj list \<times> error_event list) \<times> 'k pouch" where
  "conflict_step pf fullId acc revision =
     (case acc of
        ((losers, errors), st) \<Rightarrow>
          (case db_get_rev (db st) fullId revision of
             Inl e \<Rightarrow> ((losers, errors @ [conflict_error fullId revision e]), st)
           | Inr conflictDoc \<Rightarrow>
               (case decryptDoc pf conflictDoc st of
                  (Inl e, st') \<Rightarrow> ((losers, errors @ [conflict_error fullId revision e]), st')
                | (Inr decrypted, st') \<Rightarrow> ((losers @ [decrypted], errors), st'))))"

definition buildConflictInfo ::
  "platform \<Rightarrow> jsstring \<Rightarrow> jsstring \<Rightarrow> jsstring list \<Rightarrow> obj \<Rightarrow> 'k pouch
   \<Rightarrow> (exn + conflict_info) \<times> 'k pouch" where
  "buildConflictInfo pf fullId currentRev conflictRevs winnerDoc st =
     (case parseFullId fullId of
        None \<Rightarrow> (Inl (Err ''Error'' (js ''Invalid ID format: '' @ fullId)), st)
      | Some (table, ident) \<Rightarrow>
          (case foldl (conflict_step pf fullId) (([], []), st) conflictRevs of
             ((losers, errors), st1) \<Rightarrow>
               (case notify_if (errors \<noteq> [] \<and> has_onError (listener st1)) (OnError errors) st1 of
                  (Inl e, st2) \<Rightarrow> (Inl e, st2)
                | (Inr u, st2) \<Rightarrow>
                    (Inr \<lparr>ci_docId = fullId, ci_table = table, ci_id = ident,
                          ci_currentRev = currentRev, ci_conflictRevs = conflictRevs,
                          ci_winner = winnerDoc, ci_losers = losers\<rparr>,
                     st2))))"

definition has_conflicts :: "raw_doc \<Rightarrow> bool" where
  "has_conflicts encryptedDoc \<longleftrightarrow>
     (case raw_conflicts encryptedDoc of Some cs \<Rightarrow> cs \<noteq> [] | None \<Rightarrow> False)"

definition conflicts_of :: "raw_doc \<Rightarrow> jsstring list" where
  "conflicts_of encryptedDoc = (case raw_conflicts encryptedDoc of Some cs \<Rightarrow> cs | None \<Rightarrow> [])"

subsection \<open>\<open>loadAll\<close> and \<open>setupSubscription\<close> (lines 279-345, 879-897)\<close>

definition decryption_error :: "raw_doc \<Rightarrow> exn \<Rightarrow> error_event" where
  "decryption_error encryptedDoc e =
     \<lparr>ev_docId = raw_id encryptedDoc, ev_error = e, ev_rawDoc = encryptedDoc\<rparr>"

text \<open>\<open>docsByTable\<close> is a \<open>Map\<close>: a new table goes to the end, a known table keeps its place.\<close>

fun add_to_table ::
  "jsstring \<Rightarrow> obj \<Rightarrow> (jsstring \<times> obj list) list \<Rightarrow> (jsstring \<times> obj list) list" where
  "add_to_table table doc [] = [(table, [doc])]"
| "add_to_table table doc ((t, docs) # rest) =
     (if t = table then (t, docs @ [doc]) # rest else (t, docs) # add_to_table table doc rest)"

type_synonym load_acc = "(jsstring \<times> obj list) list \<times> error_event list \<times> conflict_info list"

text \<open>The body of the \<open>for\<close> loop of \<open>loadAll\<close> (lines 290-326) for one row.\<close>

definition loadAll_row ::
  "platform \<Rightarrow> load_acc \<times> 'k pouch \<Rightarrow> row \<Rightarrow> load_acc \<times> 'k pouch" where
  "loadAll_row pf acc r =
     (case acc of
        ((docsByTable, errors, conflicts), st) \<Rightarrow>
          (case row_doc r of
             None \<Rightarrow> acc
           | Some encryptedDoc \<Rightarrow>
               if startsWith (row_id r) (js ''_design/'') then acc
               else if truthy (raw_d encryptedDoc) then
                 (case decryptDoc pf encryptedDoc st of
                    (Inl e, st1) \<Rightarrow>
                      ((docsByTable, errors @ [decryption_error encryptedDoc e], conflicts), st1)
                  | (Inr doc, st1) \<Rightarrow>
                      (let docsByTable' =
                             (case parseFullId (raw_id encryptedDoc) of
                                Some (table, ident) \<Rightarrow> add_to_table table doc docsByTable
                              | None \<Rightarrow> docsByTable)
                       in if has_conflicts encryptedDoc then
                            (case buildConflictInfo pf (raw_id encryptedDoc) (raw_rev encryptedDoc)
                                    (conflicts_of encryptedDoc) doc st1 of
                               (Inl e, st2) \<Rightarrow>
                                 ((docsByTable', errors @ [decryption_error encryptedDoc e],
                                   conflicts), st2)
                             | (Inr conflictInfo, st2) \<Rightarrow>
                                 ((docsByTable', errors, conflicts @ [conflictInfo]), st2))
                          else ((docsByTable', errors, conflicts), st1)))
               else acc))"

definition setupSubscription :: "'k pouch \<Rightarrow> 'k pouch" where
  "setupSubscription st =
     st\<lparr>changesHandler := Some (subscriptions st), subscriptions := subscriptions st + 1\<rparr>"

text \<open>
  The \<open>try\<close> block of \<open>loadAll\<close> (lines 281-339): \<open>loadAll_rows\<close> is what follows
  the answer of \<open>allDocs\<close>.
\<close>

definition loadAll_rows :: "platform \<Rightarrow> row list \<Rightarrow> 'k pouch \<Rightarrow> (exn + unit) \<times> 'k pouch" where
  "loadAll_rows pf rows st =
     (case foldl (loadAll_row pf) (([], [], []), st) rows of
        ((docsByTable, errors, conflicts), st1) \<Rightarrow>
          (case notify_if (docsByTable \<noteq> []) (OnChange docsByTable) st1 of
             (Inl e, st2) \<Rightarrow> (Inl e, st2)
           | (Inr u, st2) \<Rightarrow>
               (case notify_if (errors \<noteq> [] \<and> has_onError (listener st2)) (OnError errors) st2 of
                  (Inl e, st3) \<Rightarrow> (Inl e, st3)
                | (Inr u, st3) \<Rightarrow>
                    notify_if (conflicts \<noteq> [] \<and> has_onConflict (listener st3))
                      (OnConflict conflicts) st3)))"

definition loadAll_body :: "platform \<Rightarrow> 'k pouch \<Rightarrow> (exn + unit) \<times> 'k pouch" where
  "loadAll_body pf st =
     (case db_allDocs (db st) of
        Inl e \<Rightarrow> (Inl e, st)
      | Inr rows \<Rightarrow> loadAll_rows pf rows st)"

definition loadAll :: "platform \<Rightarrow> 'k pouch \<Rightarrow> (exn + unit) \<times> 'k pouch" where
  "loadAll pf st =
     (case loadAll_body pf st of
        (Inl e, st1) \<Rightarrow>
          (Inr (),
           setupSubscription
             (st1\<lparr>console := console st1 @ [ConsoleError ''[EncryptedPouch] loadAll failed:'' e]\<rparr>))
      | (Inr u, st1) \<Rightarrow> (Inr (), setupSubscription st1))"

subsection \<open>\<open>get\<close> and \<open>getConflictInfo\<close> (lines 409-437, 834-859)\<close>

definition get_body ::
  "platform \<Rightarrow> jsstring \<Rightarrow> jsstring \<Rightarrow> 'k pouch \<Rightarrow> (exn + obj) \<times> 'k pouch" where
  "get_body pf table ident st =
     (let fullId = table @ js ''_'' @ ident in
      case db_get (db st) fullId of
        Inl e \<Rightarrow> (Inl e, st)
      | Inr encryptedDoc \<Rightarrow>
          (case decryptDoc pf encryptedDoc st of
             (Inl e, st1) \<Rightarrow> (Inl e, st1)
           | (Inr doc, st1) \<Rightarrow>
               if has_conflicts encryptedDoc \<and> has_onConflict (listener st1) then
                 (case buildConflictInfo pf (raw_id encryptedDoc) (raw_rev encryptedDoc)
                         (conflicts_of encryptedDoc) doc st1 of
                    (Inl e, st2) \<Rightarrow> (Inl e, st2)
                  | (Inr conflictInfo, st2) \<Rightarrow>
                      (case call_listener (OnConflict [conflictInfo]) st2 of
                         (Inl e, st3) \<Rightarrow> (Inl e, st3)
                       | (Inr u, st3) \<Rightarrow> (Inr doc, st3)))
               else (Inr doc, st1)))"

definition get ::
  "platform \<Rightarrow> jsstring \<Rightarrow> jsstring \<Rightarrow> 'k pouch \<Rightarrow> (exn + obj option) \<times> 'k pouch" where
  "get pf table ident st =
     (case get_body pf table ident st of
        (Inl e, st1) \<Rightarrow> (Inr None, st1)
      | (Inr doc, st1) \<Rightarrow> (Inr (Some doc), st1))"

definition getConflictInfo_body ::
  "platform \<Rightarrow> jsstring \<Rightarrow> jsstring \<Rightarrow> 'k pouch \<Rightarrow> (exn + conflict_info option) \<times> 'k pouch" where
  "getConflictInfo_body pf table ident st =
     (let fullId = table @ js ''_'' @ ident in
      case db_get (db st) fullId of
        Inl e \<Rightarrow> (Inl e, st)
      | Inr encryptedDoc \<Rightarrow>
          if \<not> has_conflicts encryptedDoc then (Inr None, st)
          else
            (case decryptDoc pf encryptedDoc st of
               (Inl e, st1) \<Rightarrow> (Inl e, st1)
             | (Inr doc, st1) \<Rightarrow>
                 (case buildConflictInfo pf (raw_id encryptedDoc) (raw_rev encryptedDoc)
                         (conflicts_of encryptedDoc) doc st1 of
                    (Inl e, st2) \<Rightarrow> (Inl e, st2)
                  | (Inr conflictInfo, st2) \<Rightarrow> (Inr (Some conflictInfo), st2))))"

definition getConflictInfo ::
  "platform \<Rightarrow> jsstring \<Rightarrow> jsstring \<Rightarrow> 'k pouch \<Rightarrow> (exn + conflict_info option) \<times> 'k pouch" where
  "getConflictInfo pf table ident st =
     (case getConflictInfo_body pf table ident st of
        (Inl e, st1) \<Rightarrow> (Inr None, st1)
      | (Inr r, st1) \<Rightarrow> (Inr r, st1))"

subsection \<open>\<open>getAll\<close> (lines 582-618)\<close>

definition getAll_row ::
  "platform \<Rightarrow> jsstring option \<Rightarrow> (obj list \<times> error_event list) \<times> 'k pouch \<Rightarrow> row
   \<Rightarrow> (obj list \<times> error_event list) \<times> 'k pouch" where
  "getAll_row pf table acc r =
     (case acc of
        ((docs, errors), st) \<Rightarrow>
          (case row_doc r of
             None \<Rightarrow> acc
           | Some encryptedDoc \<Rightarrow>
               if startsWith (row_id r) (js ''_design/'') then acc
               else if truthy (raw_d encryptedDoc) then
                 (case decryptDoc pf encryptedDoc st of
                    (Inl e, st1) \<Rightarrow> ((docs, errors @ [decryption_error encryptedDoc e]), st1)
                  | (Inr doc, st1) \<Rightarrow>
                      (case parseFullId (raw_id encryptedDoc) of
                         Some (t, ident) \<Rightarrow>
                           if table = None \<or> table = Some [] \<or> Some t = table
                           then ((docs @ [doc], errors), st1)
                           else ((docs, errors), st1)
                       | None \<Rightarrow> ((docs, errors), st1)))
               else acc))"

definition getAll_rows ::
  "platform \<Rightarrow> jsstring option \<Rightarrow> row list \<Rightarrow> 'k pouch \<Rightarrow> (exn + obj list) \<times> 'k pouch" where
  "getAll_rows pf table rows st =
     (case foldl (getAll_row pf table) (([], []), st) rows of
        ((docs, errors), st1) \<Rightarrow>
          (case notify_if (errors \<noteq> [] \<and> has_onError (listener st1)) (OnError errors) st1 of
             (Inl e, st2) \<Rightarrow> (Inl e, st2)
           | (Inr u, st2) \<Rightarrow> (Inr docs, st2)))"

definition getAll ::
  "platform \<Rightarrow> jsstring option \<Rightarrow> 'k pouch \<Rightarrow> (exn + obj list) \<times> 'k pouch" where
  "getAll pf table st =
     (case db_allDocs (db st) of
        Inl e \<Rightarrow> (Inl e, st)
      | Inr rows \<Rightarrow> getAll_rows pf table rows st)"

subsection \<open>\<open>handleChange\<close> (lines 899-955)\<close>

text \<open>The \<open>try\<close> block of \<open>handleChange\<close> (lines 924-940); it returns \<open>conflicts\<close>.\<close>

definition handleChange_try ::
  "platform \<Rightarrow> raw_doc \<Rightarrow> 'k pouch \<Rightarrow> (exn + unit) \<times> conflict_info list \<times> 'k pouch" where
  "handleChange_try pf encryptedDoc st =
     (case decryptDoc pf encryptedDoc st of
        (Inl e, st1) \<Rightarrow> (Inl e, [], st1)
      | (Inr doc, st1) \<Rightarrow>
          (case (if has_conflicts encryptedDoc then
                   (case buildConflictInfo pf (raw_id encryptedDoc) (raw_rev encryptedDoc)
                           (conflicts_of encryptedDoc) doc st1 of
                      (Inl e, st2) \<Rightarrow> (Inl e, [], st2)
                    | (Inr conflictInfo, st2) \<Rightarrow> (Inr (), [conflictInfo], st2))
                 else (Inr (), [], st1)) of
             (Inl e, conflicts, st2) \<Rightarrow> (Inl e, conflicts, st2)
           | (Inr u, conflicts, st2) \<Rightarrow>
               (case parseFullId (raw_id encryptedDoc) of
                  Some (table, ident) \<Rightarrow>
                    (case call_listener (OnChange [(table, [doc])]) st2 of
                       (r, st3) \<Rightarrow> (r, conflicts, st3))
                | None \<Rightarrow> (Inr (), conflicts, st2))))"

definition handleChange :: "platform \<Rightarrow> change \<Rightarrow> 'k pouch \<Rightarrow> (exn + unit) \<times> 'k pouch" where
  "handleChange pf ch st =
     (if startsWith (ch_id ch) (js ''_design/'') then (Inr (), st)
      else if ch_deleted ch \<or> \<not> truthy (case ch_doc ch of Some d \<Rightarrow> raw_d d | None \<Rightarrow> None) then
        (case parseFullId (ch_id ch) of
           Some (table, ident) \<Rightarrow> call_listener (OnDelete [(table, [ident])]) st
         | None \<Rightarrow> (Inr (), st))
      else
        (case handleChange_try pf (the (ch_doc ch)) st of
           (r, conflicts, st1) \<Rightarrow>
             (let errors = (case r of
                              Inl e \<Rightarrow> [decryption_error (the (ch_doc ch)) e]
                            | Inr u \<Rightarrow> [])
              in case notify_if (errors \<noteq> [] \<and> has_onError (listener st1)) (OnError errors) st1 of
                   (Inl e, st2) \<Rightarrow> (Inl e, st2)
                 | (Inr u, st2) \<Rightarrow>
                     notify_if (conflicts \<noteq> [] \<and> has_onConflict (listener st2))
                       (OnConflict conflicts) st2)))"

subsection \<open>Sync (lines 504-568, 643-765)\<close>

text \<open>
  The operations that wait on a sync handle take the events the handle emits while they
  wait. \<open>connectRemote\<close> and \<open>deleteAllAndSync\<close> set a timer: the end of the event list
  is the moment it fires. \<open>syncNow\<close> sets none: at the end of the list its promise is
  still pending (\<open>None\<close>).
\<close>

definition disconnectRemote :: "'k pouch \<Rightarrow> 'k pouch" where
  "disconnectRemote st = st\<lparr>syncHandler := None, remoteUrl := None\<rparr>"

fun connect_wait :: "sync_event list \<Rightarrow> 'k pouch \<Rightarrow> (exn + unit) \<times> 'k pouch" where
  "connect_wait [] st = (Inr (), st)"
| "connect_wait (Active # es) st = (Inr (), st)"
| "connect_wait (SyncError err # es) st =
     (Inl err,
      if has_onSync (listener st)
      then st\<lparr>console := console st @ [ConsoleError ''[EncryptedPouch] sync error:'' err]\<rparr>
      else st)"
| "connect_wait (SyncChange dir n # es) st =
     connect_wait es
       (if has_onSync (listener st) then snd (call_listener (OnSync dir n) st) else st)"
| "connect_wait (Complete push pull # es) st = connect_wait es st"

definition connectRemote ::
  "jsstring \<Rightarrow> sync_event list \<Rightarrow> 'k pouch \<Rightarrow> (exn + unit) \<times> 'k pouch" where
  "connectRemote url events st0 =
     (let st = disconnectRemote st0
      in connect_wait events
           (st\<lparr>remoteUrl := Some url, syncHandler := Some (syncs st), syncs := syncs st + 1\<rparr>))"

definition sync_complete ::
  "nat option \<Rightarrow> nat option \<Rightarrow> 'k pouch \<Rightarrow> (exn + unit) \<times> 'k pouch" where
  "sync_complete push pull st =
     (if has_onSync (listener st) then
        (case (case push of
                 Some n \<Rightarrow> call_listener (OnSync Push n) st
               | None \<Rightarrow> (Inr (), st)) of
           (Inl e, st1) \<Rightarrow> (Inl e, st1)
         | (Inr u, st1) \<Rightarrow>
             (case pull of
                Some n \<Rightarrow> call_listener (OnSync Pull n) st1
              | None \<Rightarrow> (Inr (), st1)))
      else (Inr (), st))"

fun syncNow_wait :: "sync_event list \<Rightarrow> 'k pouch \<Rightarrow> (exn + unit) option \<times> 'k pouch" where
  "syncNow_wait [] st = (None, st)"
| "syncNow_wait (Complete push pull # es) st =
     (case sync_complete push pull st of
        (Inl e, st1) \<Rightarrow> syncNow_wait es st1
      | (Inr u, st1) \<Rightarrow> (Some (Inr ()), st1))"
| "syncNow_wait (SyncError err # es) st =
     (Some (Inl err),
      st\<lparr>console := console st @ [ConsoleError ''[EncryptedPouch] syncNow error:'' err]\<rparr>)"
| "syncNow_wait (e # es) st = syncNow_wait es st"

definition syncNow :: "sync_event list \<Rightarrow> 'k pouch \<Rightarrow> (exn + unit) option \<times> 'k pouch" where
  "syncNow events st =
     (if \<not> (case remoteUrl st of Some url \<Rightarrow> url \<noteq> [] | None \<Rightarrow> False) then
        (Some (Inl (Err ''Error''
           (js ''No remote connection configured. Call connectRemote() first.''))), st)
      else syncNow_wait events (st\<lparr>syncs := syncs st + 1\<rparr>))"




subsection \<open>Auxiliary notions for the properties of the store layer\<close>

text \<open>
  \<open>frame\<close> relates the state before and after an operation that only reads the store:
  nothing but the key cache of the helper and the list of listener invocations has
  changed, and that list has only grown. \<open>warm\<close> is the state after the helper has
  derived its key. \<open>decryptDoc_result\<close> is the outcome of \<open>decryptDoc\<close> for a helper
  that satisfies \<open>helper_ok\<close>, as a function of the helper's parameters alone.
\<close>

definition frame :: "'k pouch \<Rightarrow> 'k pouch \<Rightarrow> bool" where
  "frame st st' \<longleftrightarrow>
     st' = st\<lparr>encryptionHelper := encryptionHelper st', calls := calls st'\<rparr>
     \<and> (\<exists>new. calls st' = calls st @ new)"

definition warm :: "'k pouch \<Rightarrow> 'k pouch" where
  "warm st = st\<lparr>encryptionHelper := cached (encryptionHelper st)\<rparr>"

definition decrypt_result :: "'k EncryptionHelper \<Rightarrow> jsstring \<Rightarrow> exn + jsstring" where
  "decrypt_result h data =
     (case decrypt_body h (deriveKey h) data of
        Inl e \<Rightarrow> Inl (DecryptionError (js ''Could not decrypt: '' @ message e))
      | Inr s \<Rightarrow> Inr s)"

definition decrypt_property_result :: "'k EncryptionHelper \<Rightarrow> json option \<Rightarrow> exn + jsstring" where
  "decrypt_property_result h d =
     (case d of
        Some (JStr data) \<Rightarrow> decrypt_result h data
      | _ \<Rightarrow>
          Inl (DecryptionError (js ''Could not decrypt: '' @
            (case deriveKey h of Inl e \<Rightarrow> message e | Inr key \<Rightarrow> js ''data.split is not a function''))))"

definition decryptDoc_result :: "platform \<Rightarrow> 'k EncryptionHelper \<Rightarrow> raw_doc \<Rightarrow> exn + obj" where
  "decryptDoc_result pf h encryptedDoc =
     (case parseFullId (raw_id encryptedDoc) of
        None \<Rightarrow> Inl (Err ''Error'' (js ''Invalid ID format: '' @ raw_id encryptedDoc))
      | Some (table, ident) \<Rightarrow>
          (case decrypt_property_result h (raw_d encryptedDoc) of
             Inl e \<Rightarrow> Inl e
           | Inr text \<Rightarrow>
               (case JSON_parse pf text of
                  Inl e \<Rightarrow> Inl e
                | Inr decrypted \<Rightarrow>
                    Inr (spread_into
                           [(js ''_id'', JStr ident), (js ''_rev'', JStr (raw_rev encryptedDoc))]
                           (spread_props decrypted)))))"

text \<open>
  What conflict reconstruction finds for one competing revision: the decrypted version, or
  the failure of loading or decrypting it. \<open>recovered_losers\<close> and \<open>revision_errors\<close>
  collect the two kinds over the list of revisions, in order.
\<close>

definition loser_result ::
  "platform \<Rightarrow> 'k EncryptionHelper \<Rightarrow> db \<Rightarrow> jsstring \<Rightarrow> jsstring \<Rightarrow> exn + obj" where
  "loser_result pf h d fullId revision =
     (case db_get_rev d fullId revision of
        Inl e \<Rightarrow> Inl e
      | Inr conflictDoc \<Rightarrow> decryptDoc_result pf h conflictDoc)"

definition recovers :: "platform \<Rightarrow> 'k EncryptionHelper \<Rightarrow> db \<Rightarrow> jsstring \<Rightarrow> jsstring \<Rightarrow> bool" where
  "recovers pf h d fullId revision \<longleftrightarrow>
     (case loser_result pf h d fullId revision of Inl e \<Rightarrow> False | Inr doc \<Rightarrow> True)"

definition recovered_losers ::
  "platform \<Rightarrow> 'k EncryptionHelper \<Rightarrow> db \<Rightarrow> jsstring \<Rightarrow> jsstring list \<Rightarrow> obj list" where
  "recovered_losers pf h d fullId revs =
     List.map_filter
       (\<lambda>revision. case loser_result pf h d fullId revision of
                     Inl e \<Rightarrow> None | Inr doc \<Rightarrow> Some doc) revs"

definition revision_errors ::
  "platform \<Rightarrow> 'k EncryptionHelper \<Rightarrow> db \<Rightarrow> jsstring \<Rightarrow> jsstring list \<Rightarrow> error_event list" where
  "revision_errors pf h d fullId revs =
     List.map_filter
       (\<lambda>revision. case loser_result pf h d fullId revision of
                     Inl e \<Rightarrow> Some (conflict_error fullId revision e) | Inr doc \<Rightarrow> None) revs"

text \<open>
  \<open>helper_inv h st\<close>: the helper of \<open>st\<close> is \<open>h\<close>, possibly with its key derived.
\<close>

definition helper_inv :: "'k EncryptionHelper \<Rightarrow> 'k pouch \<Rightarrow> bool" where
  "helper_inv h st \<longleftrightarrow>
     helper_ok h \<and> (encryptionHelper st = h \<or> encryptionHelper st = cached h)"

text \<open>
  What a bulk load finds, as functions of the rows. \<open>scan_rows\<close> keeps the rows that
  \<open>loadAll\<close> tries to decrypt (a document is present, the id is not a design id, the
  payload \<open>d\<close> is truthy), each with the outcome of decryption. \<open>loaded_docs\<close> are the
  decryptable ones, \<open>load_errors\<close> the error events of the others, \<open>load_batches\<close> the
  decrypted documents grouped by table, \<open>load_conflicts\<close> the conflict infos of the
  decryptable documents with competing revisions, and \<open>load_revision_calls\<close> the
  invocations of the error listener that conflict reconstruction makes during the scan.
\<close>

definition scan_rows ::
  "platform \<Rightarrow> 'k EncryptionHelper \<Rightarrow> row list \<Rightarrow> (raw_doc \<times> (exn + obj)) list" where
  "scan_rows pf h rows =
     List.map_filter
       (\<lambda>r. case row_doc r of
               None \<Rightarrow> None
             | Some encryptedDoc \<Rightarrow>
                 if startsWith (row_id r) (js ''_design/'') \<or> \<not> truthy (raw_d encryptedDoc)
                 then None
                 else Some (encryptedDoc, decryptDoc_result pf h encryptedDoc)) rows"

definition loaded_docs ::
  "platform \<Rightarrow> 'k EncryptionHelper \<Rightarrow> row list \<Rightarrow> (raw_doc \<times> obj) list" where
  "loaded_docs pf h rows =
     List.map_filter
       (\<lambda>x. case snd x of Inl e \<Rightarrow> None | Inr doc \<Rightarrow> Some (fst x, doc)) (scan_rows pf h rows)"

definition load_errors ::
  "platform \<Rightarrow> 'k EncryptionHelper \<Rightarrow> row list \<Rightarrow> error_event list" where
  "load_errors pf h rows =
     List.map_filter
       (\<lambda>x. case snd x of Inl e \<Rightarrow> Some (decryption_error (fst x) e) | Inr doc \<Rightarrow> None)
       (scan_rows pf h rows)"

definition table_of :: "raw_doc \<Rightarrow> jsstring" where
  "table_of encryptedDoc =
     (case parseFullId (raw_id encryptedDoc) of Some (table, ident) \<Rightarrow> table | None \<Rightarrow> [])"

definition ident_of :: "raw_doc \<Rightarrow> jsstring" where
  "ident_of encryptedDoc =
     (case parseFullId (raw_id encryptedDoc) of Some (table, ident) \<Rightarrow> ident | None \<Rightarrow> [])"

definition group_docs ::
  "(jsstring \<times> obj list) list \<Rightarrow> (raw_doc \<times> obj) list \<Rightarrow> (jsstring \<times> obj list) list" where
  "group_docs m docs = foldl (\<lambda>acc x. add_to_table (table_of (fst x)) (snd x) acc) m docs"

definition load_batches ::
  "platform \<Rightarrow> 'k EncryptionHelper \<Rightarrow> row list \<Rightarrow> (jsstring \<times> obj list) list" where
  "load_batches pf h rows = group_docs [] (loaded_docs pf h rows)"

definition conflict_of ::
  "platform \<Rightarrow> 'k EncryptionHelper \<Rightarrow> db \<Rightarrow> raw_doc \<times> obj \<Rightarrow> conflict_info" where
  "conflict_of pf h d x =
     \<lparr>ci_docId = raw_id (fst x), ci_table = table_of (fst x), ci_id = ident_of (fst x),
      ci_currentRev = raw_rev (fst x), ci_conflictRevs = conflicts_of (fst x),
      ci_winner = snd x,
      ci_losers = recovered_losers pf h d (raw_id (fst x)) (conflicts_of (fst x))\<rparr>"

definition load_conflicts ::
  "platform \<Rightarrow> 'k EncryptionHelper \<Rightarrow> db \<Rightarrow> row list \<Rightarrow> conflict_info list" where
  "load_conflicts pf h d rows =
     map (conflict_of pf h d) (filter (\<lambda>x. has_conflicts (fst x)) (loaded_docs pf h rows))"

definition load_revision_calls ::
  "platform \<Rightarrow> 'k EncryptionHelper \<Rightarrow> db \<Rightarrow> bool \<Rightarrow> row list \<Rightarrow> notif list" where
  "load_revision_calls pf h d registered rows =
     concat (map (\<lambda>x. if has_conflicts (fst x) \<and> registered
                          \<and> revision_errors pf h d (raw_id (fst x)) (conflicts_of (fst x)) \<noteq> []
                       then [OnError (revision_errors pf h d (raw_id (fst x)) (conflicts_of (fst x)))]
                       else [])
               (loaded_docs pf h rows))"

subsection \<open>A small platform and store for concrete runs\<close>

text \<open>
  \<open>toy_platform\<close> knows the JSON text of the three payloads used below (written without
  quotation marks). \<open>toy_db rows revs\<close> answers \<open>allDocs\<close> with \<open>rows\<close>, \<open>get\<close>
  with the document of the row of that id, and \<open>get\<close> of a revision with its entry in
  \<open>revs\<close>; \<open>closed_db\<close> rejects every call. The payload \<open>00|6264e7\<close> is the encryption
  of \<open>{}\<close> under \<open>toy_helper\<close> with the nonce 00.
\<close>

definition toy_platform :: platform where
  "toy_platform =
     \<lparr>JSON_stringify =
        (\<lambda>ob. if ob = [(js ''amount'', JNum 15), (js ''secret'', JStr (js ''y''))]
              then js ''{amount:15,secret:y}''
              else if ob = [(js ''d'', JStr (js ''z''))] then js ''{d:z}''
              else js ''{}''),
      JSON_parse =
        (\<lambda>s. if s = js ''{}'' then Inr (JObj [])
             else if s = js ''{amount:15,secret:y}''
             then Inr (JObj [(js ''amount'', JNum 15), (js ''secret'', JStr (js ''y''))])
             else if s = js ''{d:z}'' then Inr (JObj [(js ''d'', JStr (js ''z''))])
             else Inl (Err ''SyntaxError'' (js ''Unexpected token''))),
      ToString = (\<lambda>v. js ''[object Object]''),
      randomUUID = (\<lambda>n. js ''uuid-'' @ number_toString10 n)\<rparr>"

definition not_found :: exn where
  "not_found = Err ''not_found'' (js ''missing'')"

definition toy_db :: "row list \<Rightarrow> (jsstring \<times> raw_doc) list \<Rightarrow> db" where
  "toy_db rows revs =
     \<lparr>db_allDocs = Inr rows,
      db_get =
        (\<lambda>i. case find (\<lambda>r. row_id r = i) rows of
               Some r \<Rightarrow> (case row_doc r of Some d \<Rightarrow> Inr d | None \<Rightarrow> Inl not_found)
             | None \<Rightarrow> Inl not_found),
      db_get_rev = (\<lambda>i revision. case map_of revs revision of Some d \<Rightarrow> Inr d | None \<Rightarrow> Inl not_found),
      db_put = (\<lambda>ob. Inr (js ''1-a'')),
      db_bulkDocs = (\<lambda>ds. Inr ())\<rparr>"

definition closed_db :: db where
  "closed_db =
     \<lparr>db_allDocs = Inl (Err ''Error'' (js ''database is closed'')),
      db_get = (\<lambda>i. Inl (Err ''Error'' (js ''database is closed''))),
      db_get_rev = (\<lambda>i revision. Inl (Err ''Error'' (js ''database is closed''))),
      db_put = (\<lambda>ob. Inl (Err ''Error'' (js ''database is closed''))),
      db_bulkDocs = (\<lambda>ds. Inl (Err ''Error'' (js ''database is closed'')))\<rparr>"

definition full_listener :: PouchListener where
  "full_listener =
     \<lparr>has_onConflict = True, has_onSync = True, has_onError = True,
      listener_throws = (\<lambda>n. None)\<rparr>"

definition toy_pouch :: "db \<Rightarrow> PouchListener \<Rightarrow> (byte list) pouch" where
  "toy_pouch d l = new_EncryptedPouch d toy_crypto (js ''pw'') (Some l) (Some Raw)"

definition lunch_doc :: "jsstring list option \<Rightarrow> raw_doc" where
  "lunch_doc conflicts =
     \<lparr>raw_id = js ''expenses_lunch'', raw_rev = js ''2-a'',
      raw_d = Some (JStr (js ''00|6264e7'')), raw_conflicts = conflicts\<rparr>"

definition lunch_row :: "jsstring list option \<Rightarrow> row" where
  "lunch_row conflicts =
     \<lparr>row_id = js ''expenses_lunch'', row_rev = js ''2-a'', row_doc = Some (lunch_doc conflicts)\<rparr>"

definition corrupt_doc :: raw_doc where
  "corrupt_doc =
     \<lparr>raw_id = js ''expenses_lunch'', raw_rev = js ''1-a'',
      raw_d = Some (JStr (js ''invalid-encrypted-data'')), raw_conflicts = None\<rparr>"

definition corrupt_row :: row where
  "corrupt_row = \<lparr>row_id = js ''expenses_lunch'', row_rev = js ''1-a'', row_doc = Some corrupt_doc\<rparr>"


text \<open>Two records without the payload field \<open>d\<close>, the second with an id without separator.\<close>

definition bare_doc :: "jsstring \<Rightarrow> raw_doc" where
  "bare_doc i = \<lparr>raw_id = i, raw_rev = js ''1-a'', raw_d = None, raw_conflicts = None\<rparr>"

definition bare_row :: "jsstring \<Rightarrow> row" where
  "bare_row i = \<lparr>row_id = i, row_rev = js ''1-a'', row_doc = Some (bare_doc i)\<rparr>"

definition bare_change :: "jsstring \<Rightarrow> change" where
  "bare_change i = \<lparr>ch_id = i, ch_deleted = False, ch_doc = Some (bare_doc i)\<rparr>"

text \<open>A competing revision of \<open>expenses_lunch\<close> that decrypts.\<close>

definition loser_doc :: raw_doc where
  "loser_doc =
     \<lparr>raw_id = js ''expenses_lunch'', raw_rev = js ''2-b'',
      raw_d = Some (JStr (js ''00|6264e7'')), raw_conflicts = None\<rparr>"

definition conflicted_pouch :: "(byte list) pouch" where
  "conflicted_pouch =
     toy_pouch (toy_db [lunch_row (Some [js ''2-b'', js ''2-c''])] [(js ''2-b'', loser_doc)])
       full_listener"

text \<open>A sound document of a second table.\<close>

definition task_doc :: raw_doc where
  "task_doc =
     \<lparr>raw_id = js ''tasks_t1'', raw_rev = js ''1-t'',
      raw_d = Some (JStr (js ''00|6264e7'')), raw_conflicts = None\<rparr>"

definition task_row :: row where
  "task_row = \<lparr>row_id = js ''tasks_t1'', row_rev = js ''1-t'', row_doc = Some task_doc\<rparr>"

text \<open>A document of the table \<open>expenses\<close> whose payload is not a ciphertext.\<close>

definition dinner_doc :: raw_doc where
  "dinner_doc =
     \<lparr>raw_id = js ''expenses_dinner'', raw_rev = js ''1-a'',
      raw_d = Some (JStr (js ''invalid-encrypted-data'')), raw_conflicts = None\<rparr>"

definition dinner_row :: row where
  "dinner_row = \<lparr>row_id = js ''expenses_dinner'', row_rev = js ''1-a'', row_doc = Some dinner_doc\<rparr>"

definition mixed_pouch :: "(byte list) pouch" where
  "mixed_pouch = toy_pouch (toy_db [lunch_row None, dinner_row, task_row] []) full_listener"

definition troubled_pouch :: "(byte list) pouch" where
  "troubled_pouch =
     toy_pouch (toy_db [lunch_row (Some [js ''2-b'', js ''2-c'']), dinner_row]
                  [(js ''2-b'', loser_doc)])
       full_listener"

definition empty_pouch :: "(byte list) pouch" where
  "empty_pouch = toy_pouch (toy_db [] []) full_listener"

text \<open>
  A listener whose error callback throws, and the store of \<open>conflicted_pouch\<close> with that
  listener.
\<close>

definition boom :: exn where
  "boom = Err ''Error'' (js ''boom'')"

definition throwing_listener :: PouchListener where
  "throwing_listener =
     \<lparr>has_onConflict = True, has_onSync = True, has_onError = True,
      listener_throws = (\<lambda>n. case n of OnError es \<Rightarrow> Some boom | _ \<Rightarrow> None)\<rparr>"

definition angry_pouch :: "(byte list) pouch" where
  "angry_pouch =
     toy_pouch (toy_db [lunch_row (Some [js ''2-b'', js ''2-c''])] [(js ''2-b'', loser_doc)])
       throwing_listener"

subsection \<open>Auxiliary notions for \<open>put\<close>\<close>

text \<open>
  The entries of a document that \<open>encryptDoc\<close> collects in \<open>data\<close> (\<open>user_fields\<close>) and
  those it copies to \<open>rootFields\<close> (\<open>passed_fields\<close>), the identifier \<open>put\<close> uses
  (\<open>put_ident\<close>: the document's \<open>_id\<close> if truthy, a fresh UUID otherwise), and the record
  \<open>put\<close> hands to the store when the payload is \<open>c\<close> (\<open>stored_record\<close>).
\<close>

definition user_fields :: "obj \<Rightarrow> obj" where
  "user_fields doc = filter (\<lambda>entry. \<not> startsWith (fst entry) (js ''_'')) doc"

definition passed_fields :: "obj \<Rightarrow> obj" where
  "passed_fields doc =
     filter (\<lambda>entry. startsWith (fst entry) (js ''_'') \<and> fst entry \<noteq> js ''_id''
                     \<and> fst entry \<noteq> js ''_rev'' \<and> fst entry \<noteq> js ''__proto__'') doc"

definition put_ident :: "platform \<Rightarrow> obj \<Rightarrow> 'k pouch \<Rightarrow> jsstring" where
  "put_ident pf doc st =
     (if truthy (obj_get doc (js ''_id'')) then template_string pf (obj_get doc (js ''_id''))
      else randomUUID pf (uuid_count st))"

definition stored_record :: "platform \<Rightarrow> jsstring \<Rightarrow> obj \<Rightarrow> 'k pouch \<Rightarrow> jsstring \<Rightarrow> obj" where
  "stored_record pf table doc st c =
     (js ''_id'', JStr (table @ js ''_'' @ put_ident pf doc st)) # passed_fields doc
     @ [(js ''d'', JStr c)]
     @ (if truthy (obj_get doc (js ''_rev'')) then [(js ''_rev'', the (obj_get doc (js ''_rev'')))]
        else [])"

text \<open>The documents of the concrete runs of \<open>put\<close>.\<close>

definition expense_input :: obj where
  "expense_input =
     [(js ''_id'', JStr (js ''x'')), (js ''amount'', JNum 15), (js ''secret'', JStr (js ''y''))]"

definition payload_named_input :: obj where
  "payload_named_input = [(js ''_id'', JStr (js ''x'')), (js ''d'', JStr (js ''z''))]"

subsection \<open>The processing chain (lines 239, 886-893)\<close>

text \<open>
  \<open>processingChain\<close> starts as a fulfilled promise. The handler of the feed's \<open>change\<close>
  event replaces it by
  \<open>processingChain.then(() => handleChange(change)).catch(err => console.error(..., err))\<close>:
  one more link. A link waits until the promise before it is fulfilled; then its
  \<open>then\<close> callback starts \<open>handleChange\<close>, which runs over some turns of the event loop
  (it awaits decryption and reads of the store); if \<open>handleChange\<close> throws, the link is
  rejected until its \<open>catch\<close> callback has logged the exception; after that, or when
  \<open>handleChange\<close> has returned, the link is fulfilled. The promises belong to the
  platform: the states of a link and the steps below are their semantics for this chain.
  A change may arrive at any moment. \<open>trace\<close> records the arrivals and the starts and ends
  of \<open>handleChange\<close>, by the position of the link.
\<close>

datatype link = Waiting | Running nat | Rejected exn | Settled

datatype chain_event = Emitted nat | Started nat | Finished nat

record 'k chain_state =
  pouch_of :: "'k pouch"
  processingChain :: "(change \<times> link) list"
  trace :: "chain_event list"

datatype action = Arrive change | Start nat nat | Tick nat | Finish nat | Catch nat

definition initial_chain :: "'k pouch \<Rightarrow> 'k chain_state" where
  "initial_chain st = \<lparr>pouch_of = st, processingChain = [], trace = []\<rparr>"

text \<open>The promise before link \<open>i\<close>: \<open>Promise.resolve()\<close> for the first link.\<close>

definition predecessor_fulfilled :: "(change \<times> link) list \<Rightarrow> nat \<Rightarrow> bool" where
  "predecessor_fulfilled chain i \<longleftrightarrow> i = 0 \<or> snd (chain ! (i - 1)) = Settled"

definition set_link :: "nat \<Rightarrow> link \<Rightarrow> 'k chain_state \<Rightarrow> 'k chain_state" where
  "set_link i l s =
     s\<lparr>processingChain := (processingChain s)[i := (fst (processingChain s ! i), l)]\<rparr>"

text \<open>
  One step: a change arrives; the \<open>then\<close> callback of link \<open>i\<close> starts \<open>handleChange\<close>,
  which will take \<open>n\<close> more turns; a turn passes; \<open>handleChange\<close> of link \<open>i\<close> ends; the
  \<open>catch\<close> callback of link \<open>i\<close> runs. \<open>None\<close>: the step is not possible in this state.
\<close>

definition chain_step :: "platform \<Rightarrow> action \<Rightarrow> 'k chain_state \<Rightarrow> 'k chain_state option" where
  "chain_step pf a s =
     (case a of
        Arrive ch \<Rightarrow>
          Some (s\<lparr>processingChain := processingChain s @ [(ch, Waiting)],
                  trace := trace s @ [Emitted (length (processingChain s))]\<rparr>)
      | Start i n \<Rightarrow>
          if i < length (processingChain s) \<and> snd (processingChain s ! i) = Waiting
             \<and> predecessor_fulfilled (processingChain s) i
          then Some ((set_link i (Running n) s)\<lparr>trace := trace s @ [Started i]\<rparr>)
          else None
      | Tick i \<Rightarrow>
          if i < length (processingChain s)
          then (case snd (processingChain s ! i) of
                  Running m \<Rightarrow> (case m of Suc n \<Rightarrow> Some (set_link i (Running n) s) | 0 \<Rightarrow> None)
                | _ \<Rightarrow> None)
          else None
      | Finish i \<Rightarrow>
          if i < length (processingChain s) \<and> snd (processingChain s ! i) = Running 0
          then (case handleChange pf (fst (processingChain s ! i)) (pouch_of s) of
                  (Inl e, st') \<Rightarrow>
                    Some ((set_link i (Rejected e) s)
                            \<lparr>pouch_of := st', trace := trace s @ [Finished i]\<rparr>)
                | (Inr u, st') \<Rightarrow>
                    Some ((set_link i Settled s)
                            \<lparr>pouch_of := st', trace := trace s @ [Finished i]\<rparr>))
          else None
      | Catch i \<Rightarrow>
          if i < length (processingChain s)
          then (case snd (processingChain s ! i) of
                  Rejected e \<Rightarrow>
                    Some ((set_link i Settled s)
                            \<lparr>pouch_of := (pouch_of s)
                               \<lparr>console := console (pouch_of s)
                                  @ [ConsoleError ''[EncryptedPouch] handleChange error:'' e]\<rparr>\<rparr>)
                | _ \<Rightarrow> None)
          else None)"

fun run :: "platform \<Rightarrow> action list \<Rightarrow> 'k chain_state \<Rightarrow> 'k chain_state option" where
  "run pf [] s = Some s"
| "run pf (a # rest) s = (case chain_step pf a s of None \<Rightarrow> None | Some s' \<Rightarrow> run pf rest s')"

subsection \<open>Auxiliary notions for the processing chain\<close>

text \<open>
  \<open>arrivals\<close>: the changes of a schedule, in the order of their arrival. \<open>process\<close>: what
  one link does to the store object, \<open>handleChange\<close> and the logging of its exception.
  \<open>work\<close>: the starts and ends of a trace. \<open>serial n\<close>: the trace of \<open>n\<close> links handled one
  after the other. \<open>settled\<close>: every link is fulfilled.
\<close>

fun arrivals :: "action list \<Rightarrow> change list" where
  "arrivals [] = []"
| "arrivals (Arrive ch # rest) = ch # arrivals rest"
| "arrivals (a # rest) = arrivals rest"

definition process :: "platform \<Rightarrow> change \<Rightarrow> 'k pouch \<Rightarrow> 'k pouch" where
  "process pf ch st =
     (case handleChange pf ch st of
        (Inl e, st') \<Rightarrow>
          st'\<lparr>console := console st' @ [ConsoleError ''[EncryptedPouch] handleChange error:'' e]\<rparr>
      | (Inr u, st') \<Rightarrow> st')"

fun is_work :: "chain_event \<Rightarrow> bool" where
  "is_work (Emitted i) = False"
| "is_work (Started i) = True"
| "is_work (Finished i) = True"

definition work :: "chain_event list \<Rightarrow> chain_event list" where
  "work tr = filter is_work tr"

definition serial :: "nat \<Rightarrow> chain_event list" where
  "serial n = concat (map (\<lambda>i. [Started i, Finished i]) [0 ..< n])"

definition settled :: "'k chain_state \<Rightarrow> bool" where
  "settled s \<longleftrightarrow> (\<forall>l \<in> set (processingChain s). snd l = Settled)"

text \<open>
  The events of link \<open>i\<close> in state \<open>l\<close>, what the link has done to the store object
  \<open>base\<close>, and the turns it still needs at most.
\<close>

fun events_of :: "nat \<Rightarrow> link \<Rightarrow> chain_event list" where
  "events_of i Waiting = []"
| "events_of i (Running n) = [Started i]"
| "events_of i (Rejected e) = [Started i, Finished i]"
| "events_of i Settled = [Started i, Finished i]"

fun effect_of :: "platform \<Rightarrow> change \<Rightarrow> link \<Rightarrow> 'k pouch \<Rightarrow> 'k pouch \<Rightarrow> bool" where
  "effect_of pf ch Waiting base st \<longleftrightarrow> st = base"
| "effect_of pf ch (Running n) base st \<longleftrightarrow> st = base"
| "effect_of pf ch (Rejected e) base st \<longleftrightarrow> handleChange pf ch base = (Inl e, st)"
| "effect_of pf ch Settled base st \<longleftrightarrow> st = process pf ch base"

fun turns :: "link \<Rightarrow> nat" where
  "turns Waiting = 3"
| "turns (Running n) = n + 2"
| "turns (Rejected e) = 1"
| "turns Settled = 0"

definition remaining :: "'k chain_state \<Rightarrow> nat" where
  "remaining s = sum_list (map (\<lambda>l. turns (snd l)) (processingChain s))"

text \<open>
  The invariant of the chain: the links before link \<open>k\<close> are fulfilled, link \<open>k\<close>, if there
  is one, is not, the links after it wait; the trace and the store object are those of
  \<open>k\<close> links handled in order, followed by what link \<open>k\<close> has done.
\<close>

definition chain_inv :: "platform \<Rightarrow> 'k pouch \<Rightarrow> 'k chain_state \<Rightarrow> nat \<Rightarrow> bool" where
  "chain_inv pf st0 s k \<longleftrightarrow>
     k \<le> length (processingChain s)
     \<and> (\<forall>i < k. snd (processingChain s ! i) = Settled)
     \<and> (\<forall>i. k < i \<and> i < length (processingChain s) \<longrightarrow> snd (processingChain s ! i) = Waiting)
     \<and> (if k < length (processingChain s)
        then snd (processingChain s ! k) \<noteq> Settled
             \<and> work (trace s) = serial k @ events_of k (snd (processingChain s ! k))
             \<and> effect_of pf (fst (processingChain s ! k)) (snd (processingChain s ! k))
                 (foldl (\<lambda>st ch. process pf ch st) st0 (map fst (take k (processingChain s))))
                 (pouch_of s)
        else work (trace s) = serial k
             \<and> pouch_of s = foldl (\<lambda>st ch. process pf ch st) st0 (map fst (processingChain s)))"

text \<open>
  A listener whose delete callback throws for the document \<open>old\<close> of the table
  \<open>expenses\<close>, and two changes without payload.
\<close>

definition grumpy_listener :: PouchListener where
  "grumpy_listener =
     \<lparr>has_onConflict = True, has_onSync = True, has_onError = True,
      listener_throws =
        (\<lambda>n. if n = OnDelete [(js ''expenses'', [js ''old''])] then Some boom else None)\<rparr>"

definition grumpy_pouch :: "(byte list) pouch" where
  "grumpy_pouch = toy_pouch (toy_db [] []) grumpy_listener"

definition two_changes :: "action list" where
  "two_changes =
     [Arrive (bare_change (js ''expenses_old'')), Start 0 2,
      Arrive (bare_change (js ''tasks_t1'')), Tick 0, Tick 0, Finish 0, Catch 0, Start 1 0,
      Finish 1]"

text \<open>The states after the first three steps of \<open>two_changes\<close>, and at its end.\<close>

definition two_changes_middle :: "(byte list) chain_state" where
  "two_changes_middle =
     \<lparr>pouch_of = grumpy_pouch,
      processingChain = [(bare_change (js ''expenses_old''), Running 2),
                         (bare_change (js ''tasks_t1''), Waiting)],
      trace = [Emitted 0, Started 0, Emitted 1]\<rparr>"

definition two_changes_end :: "(byte list) chain_state" where
  "two_changes_end =
     \<lparr>pouch_of = grumpy_pouch
        \<lparr>calls := [OnDelete [(js ''expenses'', [js ''old''])],
                    OnDelete [(js ''tasks'', [js ''t1''])]],
         console := [ConsoleError ''[EncryptedPouch] handleChange error:'' boom]\<rparr>,
      processingChain = [(bare_change (js ''expenses_old''), Settled),
                         (bare_change (js ''tasks_t1''), Settled)],
      trace = [Emitted 0, Started 0, Emitted 1, Finished 0, Started 1, Finished 1]\<rparr>"

section \<open>Properties of the cipher engine\<close>

lemma number_toString16_small: "n < 16 \<Longrightarrow> number_toString16 n = [hex_digit_char n]"
  by (subst number_toString16.simps) simp

lemma number_toString16_byte:
  "n < 256 \<Longrightarrow> \<not> n < 16 \<Longrightarrow>
   number_toString16 n = [hex_digit_char (n div 16), hex_digit_char (n mod 16)]"
  by (subst number_toString16.simps) (simp add: number_toString16_small)

lemma unat_byte_less: "unat (b :: byte) < 256"
  using unsigned_less [of b, where 'a = nat] by simp

lemma padStart2_byte: "padStart2 (number_toString16 (unat (b :: byte))) = hex2 b"
proof (cases "unat b < 16")
  case True
  then show ?thesis
    by (simp add: padStart2_def hex2_def number_toString16_small hex_digit_char_def)
next
  case False
  then show ?thesis
    using number_toString16_byte [OF unat_byte_less False]
    by (simp add: padStart2_def hex2_def)
qed

lemma foldl_hex_acc:
  "foldl (\<lambda>str byte. str @ padStart2 (number_toString16 (unat byte))) acc bytes
   = acc @ concat (map hex2 bytes)"
  by (induction bytes arbitrary: acc) (simp_all add: padStart2_byte)

lemma toHexString_concat: "toHexString bytes = concat (map hex2 bytes)"
  by (simp add: toHexString_def foldl_hex_acc)

lemma unat_code_unit: "n < 65536 \<Longrightarrow> unat (of_nat n :: code_unit) = n"
  by (simp add: unat_of_nat take_bit_nat_eq_self)

lemma unat_hex_digit_char:
  "n < 16 \<Longrightarrow> unat (hex_digit_char n) = (if n < 10 then 48 + n else 87 + n)"
  using unat_code_unit [of "48 + n"] unat_code_unit [of "87 + n"]
  by (simp add: hex_digit_char_def)

lemma hex_digit_val_char: "n < 16 \<Longrightarrow> hex_digit_val (hex_digit_char n) = Some n"
  by (simp add: hex_digit_val_def unat_hex_digit_char)

lemma hex_digit_char_props:
  assumes "n < 16"
  shows "\<not> is_line_terminator (hex_digit_char n)" "\<not> is_white_space (hex_digit_char n)"
    "hex_digit_char n \<noteq> 0x7C" "hex_digit_char n \<noteq> 0x2B" "hex_digit_char n \<noteq> 0x2D"
    "hex_digit_char n \<noteq> 0x78" "hex_digit_char n \<noteq> 0x58" "is_hex_digit (hex_digit_char n)"
  using assms hex_digit_val_char [OF assms]
  by (simp_all add: is_line_terminator_def is_white_space_def is_hex_digit_def
      word_unat_eq_iff unat_hex_digit_char)

lemma unat_div16: "unat (b :: byte) div 16 < 16"
  using unat_byte_less [of b] by simp

lemma match_chunks_hex: "match_chunks (concat (map hex2 bytes)) = map hex2 bytes"
  by (induction bytes) (simp_all add: hex2_def hex_digit_char_props unat_div16)

lemma digits_value_hex2: "digits_value (hex2 b) = unat b"
  by (simp add: digits_value_def hex2_def hex_digit_val_char unat_div16)

lemma parseInt16_hex2: "parseInt16 (hex2 b) = Some (int (unat b))"
proof -
  let ?h = "hex_digit_char (unat b div 16)" and ?l = "hex_digit_char (unat b mod 16)"
  have hl: "hex2 b = [?h, ?l]" by (simp add: hex2_def)
  have 1: "dropWhile is_white_space [?h, ?l] = [?h, ?l]"
    by (simp add: hex_digit_char_props unat_div16)
  have 2: "takeWhile is_hex_digit [?h, ?l] = [?h, ?l]"
    by (simp add: hex_digit_char_props unat_div16)
  have 3: "?h \<noteq> 0x2B" "?h \<noteq> 0x2D" "?l \<noteq> 0x78" "?l \<noteq> 0x58"
    by (simp_all add: hex_digit_char_props unat_div16)
  show ?thesis
    unfolding parseInt16_def hl 1 Let_def
    using 3 2 digits_value_hex2 [of b] by (simp add: hl)
qed

lemma toUint8_parseInt16_hex2: "toUint8 (parseInt16 (hex2 b)) = b"
  by (simp add: parseInt16_hex2)

lemma fromHexString_chunks:
  "match_chunks s = c # cs \<Longrightarrow>
   fromHexString s = Inr (map (\<lambda>byte. toUint8 (parseInt16 byte)) (c # cs))"
  by (simp add: fromHexString_def)

lemma fromHexString_toHexString:
  assumes "bytes \<noteq> []"
  shows "fromHexString (toHexString bytes) = Inr bytes"
proof -
  from assms obtain b bs where bytes: "bytes = b # bs" by (cases bytes) auto
  have "match_chunks (toHexString bytes) = hex2 b # map hex2 bs"
    unfolding toHexString_concat match_chunks_hex by (simp add: bytes)
  from fromHexString_chunks [OF this] show ?thesis
    by (simp add: bytes toUint8_parseInt16_hex2 o_def)
qed

lemma js_split_no_sep: "sep \<notin> set s \<Longrightarrow> js_split sep s = [s]"
  by (induction s) auto

lemma js_split_append:
  "sep \<notin> set s \<Longrightarrow> js_split sep (s @ sep # t) = s # js_split sep t"
  by (induction s) auto

lemma hex2_no_bar: "0x7C \<notin> set (hex2 b)"
  using hex_digit_char_props(3) [of "unat b div 16"] hex_digit_char_props(3) [of "unat b mod 16"]
  by (auto simp: hex2_def unat_div16)

lemma toHexString_no_bar: "0x7C \<notin> set (toHexString bytes)"
  using hex2_no_bar by (auto simp: toHexString_concat)

lemma unat_byte: "n < 256 \<Longrightarrow> unat (of_nat n :: byte) = n"
  by (simp add: unat_of_nat take_bit_nat_eq_self)

lemma lead_mod_32: "h < 32 \<Longrightarrow> (192 + h) mod 32 = (h::nat)" using mod_mult_self4 [of 32 6 h] by simp
lemma lead_mod_16: "h < 16 \<Longrightarrow> (224 + h) mod 16 = (h::nat)" using mod_mult_self4 [of 16 14 h] by simp
lemma lead_mod_8: "h < 8 \<Longrightarrow> (240 + h) mod 8 = (h::nat)" using mod_mult_self4 [of 8 30 h] by simp
lemma cont_mod_64: "x < 64 \<Longrightarrow> (128 + x) mod 64 = (x::nat)" using mod_mult_self4 [of 64 2 x] by simp
lemma div_4096: "(c::nat) div 4096 = c div 64 div 64" using div_mult2_eq [of c 64 64] by simp
lemma div_262144: "(c::nat) div 262144 = c div 64 div 64 div 64" 
  using div_mult2_eq [of c 4096 64] by (simp add: div_4096)
lemma split_3_bytes: "(c::nat) = (c div 4096 * 64 + c div 64 mod 64) * 64 + c mod 64" 
  by (simp add: div_4096)
lemma split_4_bytes: "(c::nat) = ((c div 262144 * 64 + c div 4096 mod 64) * 64 + c div 64 mod 64) * 64 + c mod 64"
  by (simp add: div_4096 div_262144)


lemma utf8_decode_start:
  "utf8_decode 0 0 0 0x80 0xBF (b # bs) =
     (case utf8_lead (unat b) of
        Emit c \<Rightarrow> c # utf8_decode 0 0 0 0x80 0xBF bs
      | Begin cp' needed' lo' hi' \<Rightarrow> utf8_decode cp' 0 needed' lo' hi' bs)"
  by (simp add: utf8_decode.simps)

lemma utf8_decode_cont:
  "needed \<noteq> 0 \<Longrightarrow> lo \<le> unat b \<Longrightarrow> unat b \<le> hi \<Longrightarrow>
   utf8_decode cp seen needed lo hi (b # bs) =
     (if seen + 1 \<noteq> needed then
        utf8_decode (cp * 64 + unat b mod 64) (seen + 1) needed 0x80 0xBF bs
      else (cp * 64 + unat b mod 64) # utf8_decode 0 0 0 0x80 0xBF bs)"
  by (simp add: utf8_decode.simps)

lemma cont_byte: 
  "x < 64 \<Longrightarrow> unat (0x80 + of_nat x :: byte) = 0x80 + x"
  using unat_byte [of "0x80 + x"] by simp

lemma decode1: "c < 0x80 \<Longrightarrow>
  utf8_decode 0 0 0 0x80 0xBF (utf8_encode_cp c @ rest) = c # utf8_decode 0 0 0 0x80 0xBF rest"
  by (simp add: utf8_encode_cp_def utf8_lead_def unat_byte utf8_decode.simps)


lemma decode2:
  assumes "\<not> c < 0x80" "c < 0x800"
  shows "utf8_decode 0 0 0 0x80 0xBF (utf8_encode_cp c @ rest) = c # utf8_decode 0 0 0 0x80 0xBF rest"
proof -
  define h where "h = c div 64"
  define l where "l = c mod 64"
  have c: "c = h * 64 + l" by (simp add: h_def l_def)
  have h: "2 \<le> h" "h < 32" using assms by (simp_all add: h_def) 
  have l: "l < 64" by (simp add: l_def)
  have b1: "unat (0xC0 + of_nat h :: byte) = 0xC0 + h"
    using h unat_byte [of "0xC0 + h"] by simp
  have md: "(192 + h) mod 32 = h" using h by (simp add: lead_mod_32)
  have ld: "utf8_lead (0xC0 + h) = Begin h 1 0x80 0xBF"
    using h by (simp add: utf8_lead_def md) 
  have enc: "utf8_encode_cp c = [of_nat (0xC0 + h), of_nat (0x80 + l)]"
    using assms by (simp add: utf8_encode_cp_def h_def l_def)
  show ?thesis
    unfolding enc using l
    by (simp add: utf8_decode_start b1 ld utf8_decode_cont cont_byte cont_mod_64 c)
qed


lemma decode3:
  assumes "\<not> c < 0x800" "c < 0x10000" "\<not> (0xD800 \<le> c \<and> c \<le> 0xDFFF)"
  shows "utf8_decode 0 0 0 0x80 0xBF (utf8_encode_cp c @ rest) = c # utf8_decode 0 0 0 0x80 0xBF rest"
proof -
  define h where "h = c div 4096"
  define m where "m = c div 64 mod 64"
  define l where "l = c mod 64"
  define LO :: nat where "LO = (if h = 0 then 0xA0 else 0x80)"
  define HI :: nat where "HI = (if h = 13 then 0x9F else 0xBF)"
  have c: "c = (h * 64 + m) * 64 + l" unfolding h_def m_def l_def by (rule split_3_bytes)
  have h: "h < 16" using assms by (simp add: h_def) 
  have m: "m < 64" by (simp add: m_def)
  have l: "l < 64" by (simp add: l_def)
  have lo: "LO \<le> 0x80 + m" using assms(1) c l by (simp add: LO_def)
  have hi: "0x80 + m \<le> HI" using assms(3) c l m by (cases "h = 13") (simp_all add: HI_def)
  have b1: "unat (0xE0 + of_nat h :: byte) = 0xE0 + h"
    using h unat_byte [of "0xE0 + h"] by simp
  have md: "(224 + h) mod 16 = h" using h by (simp add: lead_mod_16)
  have ld: "utf8_lead (0xE0 + h) = Begin h 2 LO HI"
    using h by (simp add: utf8_lead_def md LO_def HI_def) 
  have enc: "utf8_encode_cp c = [0xE0 + of_nat h, 0x80 + of_nat m, 0x80 + of_nat l]"
    using assms by (simp add: utf8_encode_cp_def h_def l_def m_def)
  have s1: "utf8_decode 0 0 0 0x80 0xBF ((0xE0 + of_nat h) # bs) = utf8_decode h 0 2 LO HI bs" for bs
    by (simp add: utf8_decode_start b1 ld)
  have s2: "utf8_decode h 0 2 LO HI ((0x80 + of_nat m) # bs)
      = utf8_decode (h * 64 + m) 1 2 0x80 0xBF bs" for bs
    using lo hi m by (subst utf8_decode_cont) (simp_all add: cont_byte cont_mod_64)
  have s3: "utf8_decode (h * 64 + m) 1 2 0x80 0xBF ((0x80 + of_nat l) # bs)
      = ((h * 64 + m) * 64 + l) # utf8_decode 0 0 0 0x80 0xBF bs" for bs
    using l by (subst utf8_decode_cont) (simp_all add: cont_byte cont_mod_64)
  show ?thesis
    unfolding enc by (simp only: append_Cons append_Nil s1 s2 s3 c [symmetric])
qed

lemma decode4:
  assumes "\<not> c < 0x10000" "c < 0x110000"
  shows "utf8_decode 0 0 0 0x80 0xBF (utf8_encode_cp c @ rest) = c # utf8_decode 0 0 0 0x80 0xBF rest"
proof -
  define h where "h = c div 262144"
  define m1 where "m1 = c div 4096 mod 64"
  define m2 where "m2 = c div 64 mod 64"
  define l where "l = c mod 64"
  define LO :: nat where "LO = (if h = 0 then 0x90 else 0x80)"
  define HI :: nat where "HI = (if h = 4 then 0x8F else 0xBF)"
  have c: "c = ((h * 64 + m1) * 64 + m2) * 64 + l" unfolding h_def m1_def m2_def l_def by (rule split_4_bytes)
  have h: "h < 5" using assms by (simp add: h_def) 
  have m: "m1 < 64" "m2 < 64" by (simp_all add: m1_def m2_def)
  have l: "l < 64" by (simp add: l_def)
  have lo: "LO \<le> 0x80 + m1" using assms(1) c l m by (simp add: LO_def)
  have hi: "0x80 + m1 \<le> HI" using assms(2) c l m by (simp add: HI_def)
  have b1: "unat (0xF0 + of_nat h :: byte) = 0xF0 + h"
    using h unat_byte [of "0xF0 + h"] by simp
  have md: "(240 + h) mod 8 = h" using h by (simp add: lead_mod_8)
  have ld: "utf8_lead (0xF0 + h) = Begin h 3 LO HI"
    using h by (simp add: utf8_lead_def md LO_def HI_def) 
  have enc: "utf8_encode_cp c =
      [0xF0 + of_nat h, 0x80 + of_nat m1, 0x80 + of_nat m2, 0x80 + of_nat l]"
    using assms by (simp add: utf8_encode_cp_def h_def l_def m1_def m2_def)
  have s1: "utf8_decode 0 0 0 0x80 0xBF ((0xF0 + of_nat h) # bs) = utf8_decode h 0 3 LO HI bs" for bs
    by (simp add: utf8_decode_start b1 ld)
  have s2: "utf8_decode h 0 3 LO HI ((0x80 + of_nat m1) # bs)
      = utf8_decode (h * 64 + m1) 1 3 0x80 0xBF bs" for bs
    using lo hi m by (subst utf8_decode_cont) (simp_all add: cont_byte cont_mod_64)
  have s3: "utf8_decode (h * 64 + m1) 1 3 0x80 0xBF ((0x80 + of_nat m2) # bs)
      = utf8_decode ((h * 64 + m1) * 64 + m2) 2 3 0x80 0xBF bs" for bs
    using m by (subst utf8_decode_cont) (simp_all add: cont_byte cont_mod_64 numeral_2_eq_2)
  have s4: "utf8_decode ((h * 64 + m1) * 64 + m2) 2 3 0x80 0xBF ((0x80 + of_nat l) # bs)
      = (((h * 64 + m1) * 64 + m2) * 64 + l) # utf8_decode 0 0 0 0x80 0xBF bs" for bs
    using l by (subst utf8_decode_cont) (simp_all add: cont_byte cont_mod_64)
  show ?thesis
    unfolding enc by (simp only: append_Cons append_Nil s1 s2 s3 s4 c [symmetric])
qed

lemma decode_encode_cp:
  "scalar c \<Longrightarrow>
   utf8_decode 0 0 0 0x80 0xBF (utf8_encode_cp c @ rest) = c # utf8_decode 0 0 0 0x80 0xBF rest"
  using decode1 [of c rest] decode2 [of c rest] decode3 [of c rest] decode4 [of c rest]
  unfolding scalar_def by blast

lemma utf8_decode_encode_cps:
  "\<forall>c \<in> set cps. scalar c \<Longrightarrow>
   utf8_decode 0 0 0 0x80 0xBF (concat (map utf8_encode_cp cps)) = cps"
  by (induction cps) (simp_all add: decode_encode_cp utf8_decode.simps(1))

lemma unat_code_unit_less: "unat (u :: code_unit) < 65536"
  using unsigned_less [of u, where 'a = nat] by simp

lemma pair_scalar:
  "is_lead_surrogate u \<Longrightarrow> is_trail_surrogate v \<Longrightarrow>
   scalar (0x10000 + (unat u - 0xD800) * 0x400 + (unat v - 0xDC00))"
  unfolding is_lead_surrogate_def is_trail_surrogate_def scalar_def by linarith

lemma unit_scalar:
  "\<not> is_lead_surrogate u \<Longrightarrow> \<not> is_trail_surrogate u \<Longrightarrow> scalar (unat u)"
  using unat_code_unit_less [of u]
  unfolding is_lead_surrogate_def is_trail_surrogate_def scalar_def by linarith

lemma scalar_FFFD: "scalar 0xFFFD"
  by (simp add: scalar_def)

lemma code_points_scalar: "\<forall>c \<in> set (code_points s). scalar c"
  by (induction s rule: code_points.induct)
     (simp_all add: pair_scalar unit_scalar scalar_FFFD)

lemma utf16_units_bmp: "utf16_units (unat u) = [u]"
  using unat_code_unit_less [of u] by (simp add: utf16_units_def)

lemma utf16_units_pair:
  assumes "is_lead_surrogate u" "is_trail_surrogate v"
  shows "utf16_units (0x10000 + (unat u - 0xD800) * 0x400 + (unat v - 0xDC00)) = [u, v]"
proof -
  define a where "a = unat u - 0xD800"
  define b where "b = unat v - 0xDC00"
  have u: "unat u = 0xD800 + a"
    using assms(1) unfolding a_def is_lead_surrogate_def by linarith
  have v: "unat v = 0xDC00 + b"
    using assms(2) unfolding b_def is_trail_surrogate_def by linarith
  have b: "b < 0x400"
    using assms(2) unfolding b_def is_trail_surrogate_def by linarith
  have d: "(a * 0x400 + b) div 0x400 = a" using b by simp
  have m: "(a * 0x400 + b) mod 0x400 = b" using b by simp
  have "utf16_units (0x10000 + a * 0x400 + b) = [of_nat (0xD800 + a), of_nat (0xDC00 + b)]"
    unfolding utf16_units_def using d m by (simp del: of_nat_add)
  also have "\<dots> = [u, v]"
    unfolding u [symmetric] v [symmetric] by simp
  finally show ?thesis by (simp add: a_def b_def)
qed

lemma utf16_code_points: "isWellFormed s \<Longrightarrow> concat (map utf16_units (code_points s)) = s"
  by (induction s rule: code_points.induct)
     (simp_all add: utf16_units_bmp utf16_units_pair)

lemma code_points_hd_FEFF:
  "isWellFormed s \<Longrightarrow> code_points s = 0xFEFF # rest \<Longrightarrow> \<exists>t. s = 0xFEFF # t"
proof (cases s rule: code_points.cases)
  case 1
  then show "code_points s = 0xFEFF # rest \<Longrightarrow> \<exists>t. s = 0xFEFF # t" by simp
next
  case (2 u)
  assume "isWellFormed s" "code_points s = 0xFEFF # rest"
  with 2 have "unat u = 0xFEFF" by (simp split: if_splits)
  then have "u = 0xFEFF" by (simp add: word_unat_eq_iff)
  with 2 show "\<exists>t. s = 0xFEFF # t" by simp
next
  case (3 u v cs)
  assume wf: "isWellFormed s" and cp: "code_points s = 0xFEFF # rest"
  have "unat u = 0xFEFF"
  proof (cases "is_lead_surrogate u")
    case True
    with 3 wf cp show ?thesis by (simp split: if_splits)
  next
    case False
    with 3 wf cp show ?thesis by (simp split: if_splits)
  qed
  then have "u = 0xFEFF" by (simp add: word_unat_eq_iff)
  with 3 show "\<exists>t. s = 0xFEFF # t" by simp
qed

lemma TextDecoder_TextEncoder:
  assumes "isWellFormed s" "\<forall>t. s \<noteq> 0xFEFF # t"
  shows "TextDecoder_decode (TextEncoder_encode s) = s"
proof -
  have dec: "utf8_decode 0 0 0 0x80 0xBF (TextEncoder_encode s) = code_points s"
    unfolding TextEncoder_encode_def by (rule utf8_decode_encode_cps) (rule code_points_scalar)
  have "(case code_points s of c # rest \<Rightarrow> if c = 0xFEFF then rest else code_points s | [] \<Rightarrow> [])
      = code_points s"
    using code_points_hd_FEFF [OF assms(1)] assms(2) by (auto split: list.splits)
  then show ?thesis
    by (simp add: TextDecoder_decode_def dec utf16_code_points [OF assms(1)])
qed

lemma deriveKey_keyPromise [simp]: "deriveKey (h\<lparr>keyPromise := p\<rparr>) = deriveKey h"
  by (simp add: deriveKey_def Let_def cong: sum.case_cong if_cong)

lemma helper_ok_new: "helper_ok (new_EncryptionHelper pw c m)"
  by (simp add: helper_ok_def new_EncryptionHelper_def)

lemma getKey_ok: "helper_ok h \<Longrightarrow> getKey h = (deriveKey h, cached h)"
  by (auto simp: helper_ok_def getKey_def cached_def Let_def)

lemma helper_ok_cached: "helper_ok (cached h)"
  by (simp add: helper_ok_def cached_def)

lemma cached_cached: "cached (cached h) = cached h"
  by (simp add: cached_def)

lemma cached_fields [simp]:
  "crypto (cached h) = crypto h" "passphrase (cached h) = passphrase h"
  "passphraseMode (cached h) = passphraseMode h" "deriveKey (cached h) = deriveKey h"
  by (simp_all add: cached_def)

lemma decrypt_ok: "helper_ok h \<Longrightarrow>
  decrypt h data =
    (case decrypt_body h (deriveKey h) data of
       Inl e \<Rightarrow> (Inl (DecryptionError (js ''Could not decrypt: '' @ message e)), cached h)
     | Inr s \<Rightarrow> (Inr s, cached h))"
  by (simp add: decrypt_def getKey_ok)

lemma decrypt_body_cached [simp]: "decrypt_body (cached h) k data = decrypt_body h k data"
  by (simp add: decrypt_body_def cong: sum.case_cong list.case_cong)

lemma length_getRandomValues: "length (fst (getRandomValues c pos n)) = n"
  by (simp add: getRandomValues_def)

lemma js_bar: "js ''|'' = [0x7C]"
  by (simp add: js_def)

lemma split_encrypted:
  "js_split 0x7C (toHexString iv @ js ''|'' @ toHexString ct) = [toHexString iv, toHexString ct]"
  by (simp add: js_bar js_split_append js_split_no_sep toHexString_no_bar)

lemma decrypt_body_encrypted:
  assumes "iv \<noteq> []" "ct \<noteq> []"
  shows "decrypt_body h (Inr key) (toHexString iv @ js ''|'' @ toHexString ct) =
     (case subtle_decrypt (crypto h) iv key ct of
        Inl e \<Rightarrow> Inl e
      | Inr decrypted \<Rightarrow> Inr (TextDecoder_decode decrypted))"
  unfolding decrypt_body_def split_encrypted
  by (simp add: fromHexString_toHexString assms)

lemma encrypt_ok:
  assumes "helper_ok h" "deriveKey h = Inr key"
    and "subtle_encrypt (crypto h) (fst (getRandomValues (crypto h) pos 12)) key
           (TextEncoder_encode data) = Inr ct"
  shows "encrypt h pos data =
     (Inr (toHexString (fst (getRandomValues (crypto h) pos 12)) @ js ''|'' @ toHexString ct),
      cached h, pos + 12)"
  using assms by (simp add: encrypt_def getKey_ok getRandomValues_def)

lemma round_trip_general:
  assumes ok: "helper_ok h" and key: "deriveKey h = Inr key"
    and aead: "aead_correct (crypto h) key"
  shows "\<exists>e. encrypt h pos s = (Inr e, cached h, pos + 12)
          \<and> decrypt (cached h) e = (Inr (TextDecoder_decode (TextEncoder_encode s)), cached h)"
proof -
  let ?iv = "fst (getRandomValues (crypto h) pos 12)"
  have iv: "length ?iv = 12" by (rule length_getRandomValues)
  then have iv_ne: "?iv \<noteq> []" by auto
  from aead iv obtain ct where ct: "ct \<noteq> []"
    "subtle_encrypt (crypto h) ?iv key (TextEncoder_encode s) = Inr ct"
    "subtle_decrypt (crypto h) ?iv key ct = Inr (TextEncoder_encode s)"
    unfolding aead_correct_def by blast
  have enc: "encrypt h pos s = (Inr (toHexString ?iv @ js ''|'' @ toHexString ct), cached h, pos + 12)"
    by (rule encrypt_ok [OF ok key ct(2)])
  have dec: "decrypt (cached h) (toHexString ?iv @ js ''|'' @ toHexString ct)
      = (Inr (TextDecoder_decode (TextEncoder_encode s)), cached h)"
    by (simp add: decrypt_ok helper_ok_cached key decrypt_body_encrypted [OF iv_ne ct(1)] ct(3)
        cached_cached)
  from enc dec show ?thesis by blast
qed

text \<open>
  Claim C1, as amended. For every well-formed string \<open>s\<close> (no unpaired surrogate) that
  does not begin with U+FEFF, and every helper, in either passphrase mode, whose key
  derivation succeeds and whose platform cipher is correct for that key: \<open>encrypt\<close>
  returns a ciphertext, and \<open>decrypt\<close> of that ciphertext with the same helper returns
  \<open>s\<close>.
\<close>

theorem encrypt_decrypt_round_trip:
  assumes "isWellFormed s" and "take 1 s \<noteq> [0xFEFF]"
    and "helper_ok h" and "deriveKey h = Inr key" and "aead_correct (crypto h) key"
  shows "\<exists>e. encrypt h pos s = (Inr e, cached h, pos + 12)
          \<and> decrypt (cached h) e = (Inr s, cached h)"
proof -
  have "\<forall>t. s \<noteq> 0xFEFF # t" using assms(2) by auto
  then have "TextDecoder_decode (TextEncoder_encode s) = s"
    by (rule TextDecoder_TextEncoder [OF assms(1)])
  with round_trip_general [OF assms(3-5), of pos s] show ?thesis by simp
qed

lemma toy_aead_correct: "aead_correct toy_crypto key"
  by (simp add: aead_correct_def toy_crypto_def o_def)

lemma toy_key: "deriveKey toy_helper = Inr [0x70, 0x77]"
  by (simp add: toy_helper_def new_EncryptionHelper_def deriveKey_def toy_crypto_def
      TextEncoder_encode_def js_def utf8_encode_cp_def is_lead_surrogate_def is_trail_surrogate_def)

text \<open>
  Claim C1, witness: the hypotheses hold for \<open>toy_helper\<close> and the string \<open>hi\<close>.
\<close>

theorem encrypt_decrypt_round_trip_witness:
  "isWellFormed (js ''hi'') \<and> take 1 (js ''hi'') \<noteq> [0xFEFF] \<and> helper_ok toy_helper
   \<and> deriveKey toy_helper = Inr [0x70, 0x77] \<and> aead_correct (crypto toy_helper) [0x70, 0x77]
   \<and> (\<exists>e. encrypt toy_helper 0 (js ''hi'') = (Inr e, cached toy_helper, 12)
          \<and> decrypt (cached toy_helper) e = (Inr (js ''hi''), cached toy_helper))"
proof -
  have 1: "isWellFormed (js ''hi'')"
    by (simp add: js_def is_lead_surrogate_def is_trail_surrogate_def)
  have 2: "take 1 (js ''hi'') \<noteq> [0xFEFF]" by (simp add: js_def)
  have 3: "helper_ok toy_helper" unfolding toy_helper_def by (rule helper_ok_new)
  have 4: "aead_correct (crypto toy_helper) [0x70, 0x77]"
    by (simp add: toy_helper_def new_EncryptionHelper_def toy_aead_correct)
  from encrypt_decrypt_round_trip [OF 1 2 3 toy_key 4, of 0] 1 2 3 4 toy_key
  show ?thesis by simp
qed

lemma toy_crypto_fields:
  "crypto toy_helper = toy_crypto" "passphrase toy_helper = js ''pw''"
  by (simp_all add: toy_helper_def new_EncryptionHelper_def)

lemma toy_iv: "fst (getRandomValues toy_crypto 0 12) = [0, 1, 2, 3, 4, 5, 6, 7, 8, 9, 10, 11]"
  by (simp add: getRandomValues_def toy_crypto_def upt_rec)

lemma toy_pad_value: "toy_pad [0, 1, 2, 3, 4, 5, 6, 7, 8, 9, 10, 11] [0x70, 0x77] = 0x29"
  by (simp add: toy_pad_def)

lemma toy_encrypt:
  "subtle_encrypt toy_crypto iv key pt = Inr (map (\<lambda>b. b + toy_pad iv key) pt @ [toy_pad iv key])"
  by (simp add: toy_crypto_def)

lemma toy_decrypt:
  "subtle_decrypt toy_crypto iv key ct =
     (if ct \<noteq> [] \<and> last ct = toy_pad iv key
      then Inr (map (\<lambda>b. b - toy_pad iv key) (butlast ct))
      else Inl (Err ''OperationError'' []))"
  by (simp add: toy_crypto_def)

lemma hex_iv: "toHexString [0, 1, 2, 3, 4, 5, 6, 7, 8, 9, 10, 11] = js ''000102030405060708090a0b''"
  by (simp add: toHexString_concat hex2_def hex_digit_char_def js_def)

lemma enc_bom: "TextEncoder_encode [0xFEFF, 0x61] = [0xEF, 0xBB, 0xBF, 0x61]"
  by (simp add: TextEncoder_encode_def utf8_encode_cp_def is_lead_surrogate_def
      is_trail_surrogate_def)

lemma dec_bom: "TextDecoder_decode [0xEF, 0xBB, 0xBF, 0x61] = [0x61]"
  by (simp add: TextDecoder_decode_def utf8_decode.simps utf8_lead_def utf16_units_def)

lemma enc_lone: "TextEncoder_encode [0xD800] = [0xEF, 0xBF, 0xBD]"
  by (simp add: TextEncoder_encode_def utf8_encode_cp_def is_lead_surrogate_def
      is_trail_surrogate_def)

lemma dec_lone: "TextDecoder_decode [0xEF, 0xBF, 0xBD] = [0xFFFD]"
  by (simp add: TextDecoder_decode_def utf8_decode.simps utf8_lead_def utf16_units_def)

lemma hex_ct_bom: "toHexString [0x18, 0xE4, 0xE8, 0x8A, 0x29] = js ''18e4e88a29''"
  by (simp add: toHexString_concat hex2_def hex_digit_char_def js_def)

lemma hex_ct_lone: "toHexString [0x18, 0xE8, 0xE6, 0x29] = js ''18e8e629''"
  by (simp add: toHexString_concat hex2_def hex_digit_char_def js_def)

lemma js_ct_bom:
  "js ''000102030405060708090a0b|18e4e88a29''
     = js ''000102030405060708090a0b'' @ js ''|'' @ js ''18e4e88a29''"
  by (simp add: js_def)

lemma js_ct_lone:
  "js ''000102030405060708090a0b|18e8e629''
     = js ''000102030405060708090a0b'' @ js ''|'' @ js ''18e8e629''"
  by (simp add: js_def)

lemma toy_helper_ok: "helper_ok toy_helper"
  unfolding toy_helper_def by (rule helper_ok_new)

lemma toy_encrypt_bom:
  "encrypt toy_helper 0 [0xFEFF, 0x61]
     = (Inr (js ''000102030405060708090a0b|18e4e88a29''), cached toy_helper, 12)"
proof -
  have "subtle_encrypt (crypto toy_helper) (fst (getRandomValues (crypto toy_helper) 0 12))
      [0x70, 0x77] (TextEncoder_encode [0xFEFF, 0x61]) = Inr [0x18, 0xE4, 0xE8, 0x8A, 0x29]"
    by (simp add: toy_crypto_fields toy_iv toy_encrypt toy_pad_value enc_bom)
  from encrypt_ok [OF toy_helper_ok toy_key this] show ?thesis
    by (simp only: toy_crypto_fields toy_iv hex_iv hex_ct_bom js_ct_bom add_0)
qed

lemma toy_decrypt_bom:
  "decrypt (cached toy_helper) (js ''000102030405060708090a0b|18e4e88a29'')
     = (Inr [0x61], cached toy_helper)"
proof -
  have "decrypt_body toy_helper (Inr [0x70, 0x77])
      (toHexString [0, 1, 2, 3, 4, 5, 6, 7, 8, 9, 10, 11] @ js ''|''
         @ toHexString [0x18, 0xE4, 0xE8, 0x8A, 0x29]) = Inr [0x61]"
  proof -
    have "subtle_decrypt (crypto toy_helper) [0, 1, 2, 3, 4, 5, 6, 7, 8, 9, 10, 11] [0x70, 0x77]
        [0x18, 0xE4, 0xE8, 0x8A, 0x29] = Inr [0xEF, 0xBB, 0xBF, 0x61]"
      by (simp add: toy_crypto_fields toy_decrypt toy_pad_value)
    then show ?thesis
      by (subst decrypt_body_encrypted) (simp_all only: dec_bom sum.case list.distinct not_False_eq_True)
  qed
  then show ?thesis
    by (simp add: decrypt_ok helper_ok_cached toy_key cached_cached hex_iv hex_ct_bom js_ct_bom)
qed

lemma toy_encrypt_lone:
  "encrypt toy_helper 0 [0xD800]
     = (Inr (js ''000102030405060708090a0b|18e8e629''), cached toy_helper, 12)"
proof -
  have "subtle_encrypt (crypto toy_helper) (fst (getRandomValues (crypto toy_helper) 0 12))
      [0x70, 0x77] (TextEncoder_encode [0xD800]) = Inr [0x18, 0xE8, 0xE6, 0x29]"
    by (simp add: toy_crypto_fields toy_iv toy_encrypt toy_pad_value enc_lone)
  from encrypt_ok [OF toy_helper_ok toy_key this] show ?thesis
    by (simp only: toy_crypto_fields toy_iv hex_iv hex_ct_lone js_ct_lone add_0)
qed

lemma toy_decrypt_lone:
  "decrypt (cached toy_helper) (js ''000102030405060708090a0b|18e8e629'')
     = (Inr [0xFFFD], cached toy_helper)"
proof -
  have "decrypt_body toy_helper (Inr [0x70, 0x77])
      (toHexString [0, 1, 2, 3, 4, 5, 6, 7, 8, 9, 10, 11] @ js ''|''
         @ toHexString [0x18, 0xE8, 0xE6, 0x29]) = Inr [0xFFFD]"
  proof -
    have "subtle_decrypt (crypto toy_helper) [0, 1, 2, 3, 4, 5, 6, 7, 8, 9, 10, 11] [0x70, 0x77]
        [0x18, 0xE8, 0xE6, 0x29] = Inr [0xEF, 0xBF, 0xBD]"
      by (simp add: toy_crypto_fields toy_decrypt toy_pad_value)
    then show ?thesis
      by (subst decrypt_body_encrypted) (simp_all only: dec_lone sum.case list.distinct not_False_eq_True)
  qed
  then show ?thesis
    by (simp add: decrypt_ok helper_ok_cached toy_key cached_cached hex_iv hex_ct_lone js_ct_lone)
qed

text \<open>
  Claim C1 as stated (every string) fails. The string U+FEFF \<open>a\<close> comes back as \<open>a\<close>:
  \<open>TextDecoder\<close> drops the leading byte order mark. The string of the single unpaired
  surrogate U+D800 comes back as U+FFFD: \<open>TextEncoder\<close> replaces it before encryption.
\<close>

theorem round_trip_counterexample:
  "encrypt toy_helper 0 [0xFEFF, 0x61]
     = (Inr (js ''000102030405060708090a0b|18e4e88a29''), cached toy_helper, 12)
   \<and> decrypt (cached toy_helper) (js ''000102030405060708090a0b|18e4e88a29'')
     = (Inr [0x61], cached toy_helper)
   \<and> encrypt toy_helper 0 [0xD800]
     = (Inr (js ''000102030405060708090a0b|18e8e629''), cached toy_helper, 12)
   \<and> decrypt (cached toy_helper) (js ''000102030405060708090a0b|18e8e629'')
     = (Inr [0xFFFD], cached toy_helper)"
  using toy_encrypt_bom toy_decrypt_bom toy_encrypt_lone toy_decrypt_lone by blast


lemma map_results_length:
  "map_results f xs = Inr ys \<Longrightarrow> length ys = length xs"
  by (induction xs arbitrary: ys) (auto split: sum.splits)

lemma decrypt_body_no_separator:
  assumes "0x7C \<notin> set data"
  shows "\<exists>e. decrypt_body h k data = Inl e"
proof (cases k)
  case (Inl e)
  then show ?thesis by (simp add: decrypt_body_def)
next
  case (Inr key)
  show ?thesis
  proof (cases "map_results fromHexString [data]")
    case (Inl e)
    with Inr show ?thesis by (simp add: decrypt_body_def js_split_no_sep [OF assms])
  next
    case r: (Inr parts)
    from map_results_length [OF r] obtain p where "parts = [p]"
      by (cases parts) auto
    with Inr r show ?thesis by (simp add: decrypt_body_def js_split_no_sep [OF assms])
  qed
qed




















section \<open>Properties of the store layer\<close>

subsection \<open>What the reading operations leave unchanged\<close>

lemma frame_refl: "frame st st"
  by (simp add: frame_def)

lemma frame_trans: "frame a b \<Longrightarrow> frame b c \<Longrightarrow> frame a c"
  unfolding frame_def
  by (metis (no_types, lifting) append.assoc pouch.surjective pouch.update_convs(2)
      pouch.update_convs(7))


lemma frame_helper: "frame st (st\<lparr>encryptionHelper := h\<rparr>)"
  by (simp add: frame_def)

lemma frame_fields:
  assumes "frame st st'"
  shows "db st' = db st" "listener st' = listener st" "changesHandler st' = changesHandler st"
    "syncHandler st' = syncHandler st" "remoteUrl st' = remoteUrl st" "console st' = console st"
    "store_writes st' = store_writes st" "subscriptions st' = subscriptions st"
    "syncs st' = syncs st" "rng_pos st' = rng_pos st" "uuid_count st' = uuid_count st"
proof -
  from assms have eq: "st' = st\<lparr>encryptionHelper := encryptionHelper st', calls := calls st'\<rparr>"
    by (simp add: frame_def)
  show "db st' = db st" by (subst eq) simp
  show "listener st' = listener st" by (subst eq) simp
  show "changesHandler st' = changesHandler st" by (subst eq) simp
  show "syncHandler st' = syncHandler st" by (subst eq) simp
  show "remoteUrl st' = remoteUrl st" by (subst eq) simp
  show "console st' = console st" by (subst eq) simp
  show "store_writes st' = store_writes st" by (subst eq) simp
  show "subscriptions st' = subscriptions st" by (subst eq) simp
  show "syncs st' = syncs st" by (subst eq) simp
  show "rng_pos st' = rng_pos st" by (subst eq) simp
  show "uuid_count st' = uuid_count st" by (subst eq) simp
qed

lemma frame_call_listener: "frame st (snd (call_listener n st))"
  by (simp add: frame_def call_listener_def)

lemma frame_notify_if: "frame st (snd (notify_if c n st))"
  by (simp add: notify_if_def frame_call_listener frame_refl)

lemma frame_decryptDoc: "frame st (snd (decryptDoc pf encryptedDoc st))"
  by (auto simp: decryptDoc_def frame_refl frame_helper split: option.splits prod.splits sum.splits)

lemma frame_conflict_step:
  "frame st (snd acc) \<Longrightarrow> frame st (snd (conflict_step pf fullId acc revision))"
proof -
  assume a: "frame st (snd acc)"
  obtain losers errors st0 where acc: "acc = ((losers, errors), st0)"
    by (cases acc) auto
  have "frame st0 (snd (conflict_step pf fullId acc revision))"
    using frame_decryptDoc [of st0 pf]
    by (auto simp: acc conflict_step_def frame_refl split: sum.splits prod.splits)
       (metis snd_conv)+
  with a acc show ?thesis by (auto intro: frame_trans)
qed

lemma frame_foldl_conflict_step:
  "frame st (snd acc) \<Longrightarrow> frame st (snd (foldl (conflict_step pf fullId) acc revs))"
  by (induction revs arbitrary: acc) (simp_all add: frame_conflict_step)

lemma frame_buildConflictInfo:
  "frame st (snd (buildConflictInfo pf fullId currentRev conflictRevs winnerDoc st))"
proof (cases "parseFullId fullId")
  case None
  then show ?thesis by (simp add: buildConflictInfo_def frame_refl)
next
  case (Some p)
  obtain losers errors st1 where f:
    "foldl (conflict_step pf fullId) (([], []), st) conflictRevs = ((losers, errors), st1)"
    by (metis surj_pair)
  have 1: "frame st st1"
    using frame_foldl_conflict_step [of st "(([], []), st)" pf fullId conflictRevs]
    by (simp add: f frame_refl)
  have 2: "frame st1 (snd (notify_if c n st1))" for c n
    by (rule frame_notify_if)
  show ?thesis
    using Some frame_trans [OF 1 2]
    by (auto simp: buildConflictInfo_def f split: prod.splits sum.splits) (metis snd_conv)+
qed

lemma frame_step:
  "frame st a \<Longrightarrow> frame a b \<Longrightarrow> frame st b"
  by (rule frame_trans)

lemma frame_loadAll_row:
  assumes "frame st (snd acc)"
  shows "frame st (snd (loadAll_row pf acc r))"
proof -
  obtain docsByTable errors conflicts st0 where acc: "acc = ((docsByTable, errors, conflicts), st0)"
    by (cases acc) auto
  have d: "frame st0 (snd (decryptDoc pf doc st0))" for doc
    by (rule frame_decryptDoc)
  have b: "frame st0 (snd (buildConflictInfo pf a b c w (snd (decryptDoc pf doc st0))))"
    for a b c w doc
    by (rule frame_trans [OF d frame_buildConflictInfo])
  have "frame st0 (snd (loadAll_row pf acc r))"
    using d b
    by (auto simp: acc loadAll_row_def Let_def frame_refl split: option.splits sum.splits prod.splits)
       (metis snd_conv)+
  with assms acc show ?thesis by (auto intro: frame_trans)
qed

lemma frame_foldl_loadAll_row:
  "frame st (snd acc) \<Longrightarrow> frame st (snd (foldl (loadAll_row pf) acc rows))"
  by (induction rows arbitrary: acc) (simp_all add: frame_loadAll_row)

lemma frame_loadAll_rows: "frame st (snd (loadAll_rows pf rows st))"
proof -
  obtain docsByTable errors conflicts st1 where f:
    "foldl (loadAll_row pf) (([], [], []), st) rows = ((docsByTable, errors, conflicts), st1)"
    by (metis surj_pair)
  have 1: "frame st st1"
    using frame_foldl_loadAll_row [of st "(([], [], []), st)" pf rows] by (simp add: f frame_refl)
  have 2: "frame st (snd (notify_if c n st1))" for c n
    by (rule frame_trans [OF 1 frame_notify_if])
  have 3: "frame st (snd (notify_if c' n' (snd (notify_if c n st1))))" for c n c' n'
    by (rule frame_trans [OF 2 frame_notify_if])
  have 4: "frame st (snd (notify_if c'' n'' (snd (notify_if c' n' (snd (notify_if c n st1))))))"
    for c n c' n' c'' n''
    by (rule frame_trans [OF 3 frame_notify_if])
  show ?thesis
    using 2 3 4
    by (auto simp: loadAll_rows_def f split: prod.splits sum.splits) (metis snd_conv)+
qed

lemma frame_loadAll_body: "frame st (snd (loadAll_body pf st))"
  by (simp add: loadAll_body_def frame_refl frame_loadAll_rows split: sum.splits)

lemma loadAll_cases:
  "loadAll pf st =
     (Inr (),
      setupSubscription
        (case fst (loadAll_body pf st) of
           Inl e \<Rightarrow> (snd (loadAll_body pf st))
                      \<lparr>console := console (snd (loadAll_body pf st))
                         @ [ConsoleError ''[EncryptedPouch] loadAll failed:'' e]\<rparr>
         | Inr u \<Rightarrow> snd (loadAll_body pf st)))"
  by (simp add: loadAll_def split: prod.splits sum.splits)

text \<open>
  Claim C8. \<open>loadAll\<close> never fails: whatever the store answers and whatever the listener
  does, it returns normally, and it opens the change subscription in every case. A failure
  of its \<open>try\<close> block (of \<open>allDocs\<close> in particular) is written to the console and goes no
  further.
\<close>

theorem loadAll_swallows_and_subscribes:
  "fst (loadAll pf st) = Inr ()
   \<and> changesHandler (snd (loadAll pf st)) = Some (subscriptions st)
   \<and> subscriptions (snd (loadAll pf st)) = subscriptions st + 1
   \<and> (\<forall>e. fst (loadAll_body pf st) = Inl e \<longrightarrow>
         console (snd (loadAll pf st))
           = console st @ [ConsoleError ''[EncryptedPouch] loadAll failed:'' e])
   \<and> (\<forall>e. db_allDocs (db st) = Inl e \<longrightarrow> fst (loadAll_body pf st) = Inl e)"
  using frame_fields [OF frame_loadAll_body [of st pf]]
  by (auto simp: loadAll_cases setupSubscription_def loadAll_body_def split: sum.splits)

lemma closed_pouch_body:
  "loadAll_body toy_platform (toy_pouch closed_db default_listener)
     = (Inl (Err ''Error'' (js ''database is closed'')), toy_pouch closed_db default_listener)"
  by (simp add: loadAll_body_def toy_pouch_def new_EncryptedPouch_def closed_db_def)

text \<open>
  Claim C8, witness: a store whose \<open>allDocs\<close> rejects.
\<close>

theorem loadAll_swallows_and_subscribes_witness:
  "db_allDocs (db (toy_pouch closed_db default_listener))
     = Inl (Err ''Error'' (js ''database is closed''))
   \<and> fst (loadAll_body toy_platform (toy_pouch closed_db default_listener))
     = Inl (Err ''Error'' (js ''database is closed''))
   \<and> fst (loadAll toy_platform (toy_pouch closed_db default_listener)) = Inr ()
   \<and> changesHandler (snd (loadAll toy_platform (toy_pouch closed_db default_listener))) = Some 0
   \<and> console (snd (loadAll toy_platform (toy_pouch closed_db default_listener)))
     = [ConsoleError ''[EncryptedPouch] loadAll failed:'' (Err ''Error'' (js ''database is closed''))]"
  using loadAll_swallows_and_subscribes [of toy_platform "toy_pouch closed_db default_listener"]
    closed_pouch_body
  by (simp add: toy_pouch_def new_EncryptedPouch_def closed_db_def)

lemma frame_get_body: "frame st (snd (get_body pf table ident st))"
proof -
  have d: "frame st (snd (decryptDoc pf doc st))" for doc
    by (rule frame_decryptDoc)
  have b: "frame st (snd (buildConflictInfo pf a b c w (snd (decryptDoc pf doc st))))"
    for a b c w doc
    by (rule frame_trans [OF d frame_buildConflictInfo])
  have c: "frame st (snd (call_listener n
      (snd (buildConflictInfo pf a b c w (snd (decryptDoc pf doc st))))))"
    for a b c w doc n
    by (rule frame_trans [OF b frame_call_listener])
  show ?thesis
    using d b c
    by (auto simp: get_body_def Let_def frame_refl split: sum.splits prod.splits)
       (metis snd_conv)+
qed

lemma get_cases:
  "get pf table ident st =
     ((case fst (get_body pf table ident st) of Inl e \<Rightarrow> Inr None | Inr doc \<Rightarrow> Inr (Some doc)),
      snd (get_body pf table ident st))"
  by (simp add: get_def split: prod.splits sum.splits)

lemma decryptDoc_calls: "calls (snd (decryptDoc pf doc st)) = calls st"
  by (auto simp: decryptDoc_def split: option.splits prod.splits sum.splits)

subsection \<open>\<open>decryptDoc\<close> for a helper that satisfies \<open>helper_ok\<close>\<close>

lemma decrypt_result_eq:
  "helper_ok h \<Longrightarrow> decrypt h data = (decrypt_result h data, cached h)"
  by (simp add: decrypt_ok decrypt_result_def split: sum.splits)

lemma decrypt_property_ok:
  "helper_ok h \<Longrightarrow> decrypt_property h d = (decrypt_property_result h d, cached h)"
  by (simp add: decrypt_property_def decrypt_property_result_def decrypt_result_eq getKey_ok
      split: option.splits json.splits)

lemma decryptDoc_ok:
  "helper_ok (encryptionHelper st) \<Longrightarrow>
   decryptDoc pf encryptedDoc st =
     (decryptDoc_result pf (encryptionHelper st) encryptedDoc,
      if parseFullId (raw_id encryptedDoc) = None then st else warm st)"
  by (simp add: decryptDoc_def decryptDoc_result_def decrypt_property_ok warm_def
      split: option.splits sum.splits)

lemma decrypt_result_cached [simp]: "decrypt_result (cached h) data = decrypt_result h data"
  by (simp add: decrypt_result_def)

lemma decryptDoc_result_cached [simp]:
  "decryptDoc_result pf (cached h) encryptedDoc = decryptDoc_result pf h encryptedDoc"
  by (simp add: decryptDoc_result_def decrypt_property_result_def
      cong: option.case_cong sum.case_cong json.case_cong)

lemma warm_fields [simp]:
  "encryptionHelper (warm st) = cached (encryptionHelper st)" "db (warm st) = db st"
  "listener (warm st) = listener st" "calls (warm st) = calls st"
  by (simp_all add: warm_def)

lemma warm_warm [simp]: "warm (warm st) = warm st"
  by (simp add: warm_def cached_cached)

lemma helper_ok_warm: "helper_ok (encryptionHelper (warm st))"
  by (simp add: helper_ok_cached)

subsection \<open>Concrete runs\<close>

lemma toy_pouch_fields:
  "encryptionHelper (toy_pouch d l) = toy_helper" "db (toy_pouch d l) = d"
  "listener (toy_pouch d l) = l" "calls (toy_pouch d l) = []"
  "remoteUrl (toy_pouch d l) = None" "syncHandler (toy_pouch d l) = None"
  by (simp_all add: toy_pouch_def new_EncryptedPouch_def toy_helper_def)

lemma parse_lunch: "parseFullId (js ''expenses_lunch'') = Some (js ''expenses'', js ''lunch'')"
  by (simp add: parseFullId_def js_def)

lemma hex_00: "toHexString [0] = js ''00''"
  by (simp add: toHexString_concat hex2_def hex_digit_char_def js_def)

lemma hex_6264e7: "toHexString [0x62, 0x64, 0xE7] = js ''6264e7''"
  by (simp add: toHexString_concat hex2_def hex_digit_char_def js_def)

lemma js_payload: "js ''00|6264e7'' = js ''00'' @ js ''|'' @ js ''6264e7''"
  by (simp add: js_def)

lemma decode_braces: "TextDecoder_decode [0x7B, 0x7D] = js ''{}''"
  by (simp add: TextDecoder_decode_def utf8_decode.simps utf8_lead_def utf16_units_def js_def)

lemma decrypt_payload: "decrypt_result toy_helper (js ''00|6264e7'') = Inr (js ''{}'')"
proof -
  have d: "subtle_decrypt (crypto toy_helper) [0] [0x70, 0x77] [0x62, 0x64, 0xE7] = Inr [0x7B, 0x7D]"
    by (simp add: toy_crypto_fields toy_decrypt toy_pad_def)
  have "decrypt_body toy_helper (Inr [0x70, 0x77])
          (toHexString [0] @ js ''|'' @ toHexString [0x62, 0x64, 0xE7]) = Inr (js ''{}'')"
    by (subst decrypt_body_encrypted) (simp_all only: d decode_braces sum.case list.distinct not_False_eq_True)
  then show ?thesis
    by (simp add: decrypt_result_def toy_key hex_00 hex_6264e7 js_payload)
qed

lemma decryptDoc_lunch:
  "decryptDoc_result toy_platform toy_helper (lunch_doc c)
     = Inr [(js ''_id'', JStr (js ''lunch'')), (js ''_rev'', JStr (js ''2-a''))]"
  by (simp add: decryptDoc_result_def lunch_doc_def parse_lunch decrypt_property_result_def
      decrypt_payload toy_platform_def spread_props_def spread_into_def)

lemma js_lunch_id: "js ''expenses'' @ js ''_'' @ js ''lunch'' = js ''expenses_lunch''"
  by (simp add: js_def)

lemma toy_db_get_lunch:
  "db_get (toy_db [lunch_row c] revs) (js ''expenses_lunch'') = Inr (lunch_doc c)"
  by (simp add: toy_db_def lunch_row_def)

lemma lunch_doc_fields:
  "raw_id (lunch_doc c) = js ''expenses_lunch''" "raw_rev (lunch_doc c) = js ''2-a''"
  "raw_conflicts (lunch_doc c) = c" "raw_d (lunch_doc c) = Some (JStr (js ''00|6264e7''))"
  by (simp_all add: lunch_doc_def)

lemma parse_lunch_doc: "parseFullId (raw_id (lunch_doc c)) = Some (js ''expenses'', js ''lunch'')"
  by (simp add: lunch_doc_fields parse_lunch)

lemma decryptDoc_toy_lunch:
  "helper_ok (encryptionHelper st) \<Longrightarrow> encryptionHelper st = toy_helper \<or> encryptionHelper st = cached toy_helper \<Longrightarrow>
   decryptDoc toy_platform (lunch_doc c) st
     = (Inr [(js ''_id'', JStr (js ''lunch'')), (js ''_rev'', JStr (js ''2-a''))], warm st)"
  by (auto simp: decryptDoc_ok parse_lunch_doc decryptDoc_lunch)

lemma decrypt_result_no_separator:
  "0x7C \<notin> set data \<Longrightarrow> \<exists>m. decrypt_result h data = Inl (DecryptionError m)"
  using decrypt_body_no_separator [of data h "deriveKey h"]
  by (auto simp: decrypt_result_def)

lemma decryptDoc_corrupt:
  "\<exists>m. decryptDoc_result toy_platform toy_helper corrupt_doc = Inl (DecryptionError m)"
proof -
  have "0x7C \<notin> set (js ''invalid-encrypted-data'')" by (simp add: js_def)
  from decrypt_result_no_separator [OF this, of toy_helper]
  show ?thesis
    by (auto simp: decryptDoc_result_def corrupt_doc_def parse_lunch decrypt_property_result_def)
qed

subsection \<open>The guards of \<open>syncNow\<close> and \<open>deleteAllAndSync\<close>\<close>







subsection \<open>Records without payload\<close>

lemma loadAll_row_no_payload:
  "row_doc r = Some encryptedDoc \<Longrightarrow> \<not> truthy (raw_d encryptedDoc) \<Longrightarrow> loadAll_row pf acc r = acc"
  by (simp add: loadAll_row_def split: prod.splits)

lemma getAll_row_no_payload:
  "row_doc r = Some encryptedDoc \<Longrightarrow> \<not> truthy (raw_d encryptedDoc) \<Longrightarrow>
   getAll_row pf table acc r = acc"
  by (simp add: getAll_row_def split: prod.splits)

text \<open>
  Claim C10, as amended. A stored record without a truthy payload field \<open>d\<close> is passed
  over by the scans of \<open>loadAll\<close> and \<open>getAll\<close>: the scan of the rows with the record
  gives the same result, state and listener invocations as the scan without it. The live
  path treats a change with such a record (not a design document) as a deletion: it invokes
  the delete listener with the table and id when the id has the form \<open>table_id\<close>, and
  does nothing when the id has no separator.
\<close>

theorem records_without_payload:
  "row_doc r = Some encryptedDoc \<and> \<not> truthy (raw_d encryptedDoc) \<longrightarrow>
     loadAll_rows pf (rs1 @ r # rs2) st = loadAll_rows pf (rs1 @ rs2) st
     \<and> getAll_rows pf table (rs1 @ r # rs2) st = getAll_rows pf table (rs1 @ rs2) st
     \<and> (\<not> startsWith (row_id r) (js ''_design/'') \<longrightarrow>
          handleChange pf \<lparr>ch_id = row_id r, ch_deleted = False, ch_doc = Some encryptedDoc\<rparr> st
            = (case parseFullId (row_id r) of
                 Some (table, ident) \<Rightarrow> call_listener (OnDelete [(table, [ident])]) st
               | None \<Rightarrow> (Inr (), st)))"
  by (simp add: loadAll_rows_def getAll_rows_def loadAll_row_no_payload getAll_row_no_payload
      handleChange_def)

lemma parse_old: "parseFullId (js ''expenses_old'') = Some (js ''expenses'', js ''old'')"
  by (simp add: parseFullId_def js_def)

lemma parse_orphan: "parseFullId (js ''orphan'') = None"
  by (simp add: parseFullId_def js_def)

lemma not_design: "\<not> startsWith (js ''expenses_old'') (js ''_design/'')"
  "\<not> startsWith (js ''orphan'') (js ''_design/'')"
  by (simp_all add: startsWith_def js_def)

text \<open>
  Claim C10, witness: the record \<open>expenses_old\<close> without payload.
\<close>

theorem records_without_payload_witness:
  "row_doc (bare_row (js ''expenses_old'')) = Some (bare_doc (js ''expenses_old''))
   \<and> \<not> truthy (raw_d (bare_doc (js ''expenses_old'')))
   \<and> \<not> startsWith (row_id (bare_row (js ''expenses_old''))) (js ''_design/'')
   \<and> loadAll_rows toy_platform ([lunch_row None] @ bare_row (js ''expenses_old'') # [])
        (toy_pouch (toy_db [] []) full_listener)
      = loadAll_rows toy_platform ([lunch_row None] @ []) (toy_pouch (toy_db [] []) full_listener)
   \<and> getAll_rows toy_platform None ([lunch_row None] @ bare_row (js ''expenses_old'') # [])
        (toy_pouch (toy_db [] []) full_listener)
      = getAll_rows toy_platform None ([lunch_row None] @ []) (toy_pouch (toy_db [] []) full_listener)
   \<and> calls (snd (handleChange toy_platform (bare_change (js ''expenses_old''))
        (toy_pouch (toy_db [] []) full_listener)))
      = [OnDelete [(js ''expenses'', [js ''old''])]]"
proof -
  have 1: "row_doc (bare_row (js ''expenses_old'')) = Some (bare_doc (js ''expenses_old''))"
    "\<not> truthy (raw_d (bare_doc (js ''expenses_old'')))"
    "row_id (bare_row (js ''expenses_old'')) = js ''expenses_old''"
    by (simp_all add: bare_row_def bare_doc_def)
  have 2: "bare_change (js ''expenses_old'')
      = \<lparr>ch_id = row_id (bare_row (js ''expenses_old'')), ch_deleted = False,
         ch_doc = Some (bare_doc (js ''expenses_old''))\<rparr>"
    by (simp add: bare_change_def bare_row_def)
  from records_without_payload [of "bare_row (js ''expenses_old'')" "bare_doc (js ''expenses_old'')"
      toy_platform "[lunch_row None]" "[]" "toy_pouch (toy_db [] []) full_listener" None]
    1 not_design
  show ?thesis
    by (simp add: 2 parse_old call_listener_def toy_pouch_fields)
qed

text \<open>
  Claim C10 as stated (the live path emits a delete notification for every such record)
  fails for a record whose id has no separator: \<open>handleChange\<close> invokes no listener.
\<close>

theorem records_without_payload_counterexample:
  "row_doc (bare_row (js ''orphan'')) = Some (bare_doc (js ''orphan''))
   \<and> \<not> truthy (raw_d (bare_doc (js ''orphan'')))
   \<and> \<not> startsWith (row_id (bare_row (js ''orphan''))) (js ''_design/'')
   \<and> handleChange toy_platform (bare_change (js ''orphan'')) (toy_pouch (toy_db [] []) full_listener)
      = (Inr (), toy_pouch (toy_db [] []) full_listener)
   \<and> calls (toy_pouch (toy_db [] []) full_listener) = []"
  by (simp add: bare_row_def bare_doc_def bare_change_def not_design handleChange_def parse_orphan
      toy_pouch_fields)

subsection \<open>Conflict reconstruction\<close>

lemma helper_inv_ok: "helper_inv h st \<Longrightarrow> helper_ok (encryptionHelper st)"
  by (auto simp: helper_inv_def helper_ok_cached)

lemma helper_inv_result:
  "helper_inv h st \<Longrightarrow> decryptDoc_result pf (encryptionHelper st) doc = decryptDoc_result pf h doc"
  by (auto simp: helper_inv_def)

lemma helper_inv_warm: "helper_inv h st \<Longrightarrow> helper_inv h (warm st)"
  by (auto simp: helper_inv_def cached_cached)

lemma helper_inv_init: "helper_ok (encryptionHelper st) \<Longrightarrow> helper_inv (encryptionHelper st) st"
  by (simp add: helper_inv_def)

lemma helper_inv_calls [simp]: "helper_inv h (st\<lparr>calls := c\<rparr>) = helper_inv h st"
  by (simp add: helper_inv_def)

lemma decryptDoc_inv:
  assumes "helper_inv h st"
  shows "\<exists>st'. decryptDoc pf doc st = (decryptDoc_result pf h doc, st')
           \<and> helper_inv h st' \<and> db st' = db st \<and> listener st' = listener st
           \<and> calls st' = calls st"
  using assms
  by (auto simp: decryptDoc_ok helper_inv_ok helper_inv_result helper_inv_warm)

lemma conflict_step_inv:
  assumes "helper_inv h st"
  shows "\<exists>st'. conflict_step pf fullId ((losers, errors), st) revision =
           ((losers @ recovered_losers pf h (db st) fullId [revision],
             errors @ revision_errors pf h (db st) fullId [revision]), st')
           \<and> helper_inv h st' \<and> db st' = db st \<and> listener st' = listener st
           \<and> calls st' = calls st"
proof (cases "db_get_rev (db st) fullId revision")
  case (Inl e)
  with assms show ?thesis
    by (simp add: conflict_step_def recovered_losers_def revision_errors_def loser_result_def
        List.map_filter_simps)
next
  case (Inr conflictDoc)
  from decryptDoc_inv [OF assms, of pf conflictDoc] obtain st' where
    d: "decryptDoc pf conflictDoc st = (decryptDoc_result pf h conflictDoc, st')"
    and i: "helper_inv h st'" "db st' = db st" "listener st' = listener st" "calls st' = calls st"
    by blast
  show ?thesis
    using Inr d i
    by (cases "decryptDoc_result pf h conflictDoc")
       (simp_all add: conflict_step_def recovered_losers_def revision_errors_def loser_result_def
          List.map_filter_simps)
qed

lemma map_filter_append: "List.map_filter f (xs @ ys) = List.map_filter f xs @ List.map_filter f ys"
  by (simp add: List.map_filter_def)

lemma foldl_conflict_step_inv:
  assumes "helper_inv h st"
  shows "\<exists>st'. foldl (conflict_step pf fullId) ((losers, errors), st) revs =
           ((losers @ recovered_losers pf h (db st) fullId revs,
             errors @ revision_errors pf h (db st) fullId revs), st')
           \<and> helper_inv h st' \<and> db st' = db st \<and> listener st' = listener st
           \<and> calls st' = calls st"
  using assms
proof (induction revs arbitrary: losers errors st)
  case Nil
  then show ?case
    by (simp add: recovered_losers_def revision_errors_def List.map_filter_simps)
next
  case (Cons r rs)
  from conflict_step_inv [OF Cons.prems, of pf fullId losers errors r] obtain st1 where
    s: "conflict_step pf fullId ((losers, errors), st) r =
           ((losers @ recovered_losers pf h (db st) fullId [r],
             errors @ revision_errors pf h (db st) fullId [r]), st1)"
    and i: "helper_inv h st1" "db st1 = db st" "listener st1 = listener st" "calls st1 = calls st"
    by blast
  from Cons.IH [OF i(1), of "losers @ recovered_losers pf h (db st) fullId [r]"
      "errors @ revision_errors pf h (db st) fullId [r]"] obtain st2 where
    f: "foldl (conflict_step pf fullId)
          ((losers @ recovered_losers pf h (db st) fullId [r],
            errors @ revision_errors pf h (db st) fullId [r]), st1) rs =
        (((losers @ recovered_losers pf h (db st) fullId [r]) @ recovered_losers pf h (db st1) fullId rs,
          (errors @ revision_errors pf h (db st) fullId [r]) @ revision_errors pf h (db st1) fullId rs),
         st2)"
    and j: "helper_inv h st2" "db st2 = db st1" "listener st2 = listener st1" "calls st2 = calls st1"
    by blast
  have a: "recovered_losers pf h (db st) fullId (r # rs)
      = recovered_losers pf h (db st) fullId [r] @ recovered_losers pf h (db st) fullId rs"
    using map_filter_append [of _ "[r]" rs] by (simp add: recovered_losers_def)
  have b: "revision_errors pf h (db st) fullId (r # rs)
      = revision_errors pf h (db st) fullId [r] @ revision_errors pf h (db st) fullId rs"
    using map_filter_append [of _ "[r]" rs] by (simp add: revision_errors_def)
  show ?case
    using s f i j by (simp add: a b)
qed

lemma length_recovered:
  "length (recovered_losers pf h d fullId revs) = length (filter (recovers pf h d fullId) revs)"
  by (induction revs)
     (auto simp: recovered_losers_def recovers_def List.map_filter_simps split: sum.splits)

lemma length_errors:
  "length (revision_errors pf h d fullId revs)
     = length revs - length (filter (recovers pf h d fullId) revs)"
proof -
  have "length (revision_errors pf h d fullId revs) + length (filter (recovers pf h d fullId) revs)
      = length revs"
    by (induction revs)
       (auto simp: revision_errors_def recovers_def List.map_filter_simps split: sum.splits)
  then show ?thesis by simp
qed

text \<open>
  \<open>buildConflictInfo\<close> for a parsable id, whatever the listener does: the loop never
  fails; the call of the error listener, made when there are errors and an error listener,
  decides the outcome.
\<close>

lemma buildConflictInfo_cases:
  assumes inv: "helper_inv h st" and parsed: "parseFullId fullId = Some (table, ident)"
  shows "\<exists>st'. buildConflictInfo pf fullId currentRev conflictRevs winnerDoc st =
           ((case (if revision_errors pf h (db st) fullId conflictRevs \<noteq> [] \<and> has_onError (listener st)
                   then listener_throws (listener st)
                          (OnError (revision_errors pf h (db st) fullId conflictRevs))
                   else None) of
               Some e \<Rightarrow> Inl e
             | None \<Rightarrow>
                 Inr \<lparr>ci_docId = fullId, ci_table = table, ci_id = ident, ci_currentRev = currentRev,
                      ci_conflictRevs = conflictRevs, ci_winner = winnerDoc,
                      ci_losers = recovered_losers pf h (db st) fullId conflictRevs\<rparr>), st')
           \<and> helper_inv h st' \<and> db st' = db st \<and> listener st' = listener st
           \<and> calls st' = calls st @
                (if revision_errors pf h (db st) fullId conflictRevs \<noteq> [] \<and> has_onError (listener st)
                 then [OnError (revision_errors pf h (db st) fullId conflictRevs)] else [])"
proof -
  from foldl_conflict_step_inv [OF inv, of pf fullId "[]" "[]" conflictRevs] obtain st1 where
    f: "foldl (conflict_step pf fullId) (([], []), st) conflictRevs =
           ((recovered_losers pf h (db st) fullId conflictRevs,
             revision_errors pf h (db st) fullId conflictRevs), st1)"
    and i: "helper_inv h st1" "db st1 = db st" "listener st1 = listener st" "calls st1 = calls st"
    by auto
  show ?thesis
    using parsed i
    by (simp add: buildConflictInfo_def f notify_if_def call_listener_def split: option.split)
qed

lemma buildConflictInfo_inv:
  assumes inv: "helper_inv h st" and quiet: "\<forall>n. listener_throws (listener st) n = None"
    and parsed: "parseFullId fullId = Some (table, ident)"
  shows "\<exists>st'. buildConflictInfo pf fullId currentRev conflictRevs winnerDoc st =
           (Inr \<lparr>ci_docId = fullId, ci_table = table, ci_id = ident, ci_currentRev = currentRev,
                 ci_conflictRevs = conflictRevs, ci_winner = winnerDoc,
                 ci_losers = recovered_losers pf h (db st) fullId conflictRevs\<rparr>, st')
           \<and> helper_inv h st' \<and> db st' = db st \<and> listener st' = listener st
           \<and> calls st' = calls st @
                (if revision_errors pf h (db st) fullId conflictRevs \<noteq> [] \<and> has_onError (listener st)
                 then [OnError (revision_errors pf h (db st) fullId conflictRevs)] else [])"
proof -
  have t: "(if revision_errors pf h (db st) fullId conflictRevs \<noteq> [] \<and> has_onError (listener st)
            then listener_throws (listener st)
                   (OnError (revision_errors pf h (db st) fullId conflictRevs))
            else None) = None"
    using quiet by simp
  show ?thesis
    using buildConflictInfo_cases [OF inv parsed, of pf currentRev conflictRevs winnerDoc]
    unfolding t by simp
qed

text \<open>
  \<open>getConflictInfo\<close> for a stored document with competing revisions whose current version
  decrypts.
\<close>

lemma getConflictInfo_cases:
  assumes ok: "helper_ok (encryptionHelper st)"
    and stored: "db_get (db st) (table @ js ''_'' @ ident) = Inr encryptedDoc"
    and conflicts: "has_conflicts encryptedDoc"
    and winner: "decryptDoc_result pf (encryptionHelper st) encryptedDoc = Inr winner"
  shows "fst (getConflictInfo pf table ident st) =
           (case (if revision_errors pf (encryptionHelper st) (db st) (raw_id encryptedDoc)
                       (conflicts_of encryptedDoc) \<noteq> [] \<and> has_onError (listener st)
                  then listener_throws (listener st)
                         (OnError (revision_errors pf (encryptionHelper st) (db st)
                                     (raw_id encryptedDoc) (conflicts_of encryptedDoc)))
                  else None) of
              Some e \<Rightarrow> Inr None
            | None \<Rightarrow> Inr (Some (conflict_of pf (encryptionHelper st) (db st) (encryptedDoc, winner))))"
proof -
  let ?h = "encryptionHelper st"
  have inv: "helper_inv ?h st" by (rule helper_inv_init [OF ok])
  from winner obtain t i where p: "parseFullId (raw_id encryptedDoc) = Some (t, i)"
    by (auto simp: decryptDoc_result_def split: option.splits)
  from decryptDoc_inv [OF inv, of pf encryptedDoc] winner obtain st1 where
    d: "decryptDoc pf encryptedDoc st = (Inr winner, st1)"
    and i: "helper_inv ?h st1" "db st1 = db st" "listener st1 = listener st"
    by auto
  from buildConflictInfo_cases [OF i(1) p, of pf "raw_rev encryptedDoc"
      "conflicts_of encryptedDoc" winner] obtain st2 where
    b: "buildConflictInfo pf (raw_id encryptedDoc) (raw_rev encryptedDoc)
          (conflicts_of encryptedDoc) winner st1 =
         ((case (if revision_errors pf ?h (db st1) (raw_id encryptedDoc) (conflicts_of encryptedDoc) \<noteq> []
                    \<and> has_onError (listener st1)
                 then listener_throws (listener st1)
                        (OnError (revision_errors pf ?h (db st1) (raw_id encryptedDoc)
                                    (conflicts_of encryptedDoc)))
                 else None) of
             Some e \<Rightarrow> Inl e
           | None \<Rightarrow>
               Inr \<lparr>ci_docId = raw_id encryptedDoc, ci_table = t, ci_id = i,
                    ci_currentRev = raw_rev encryptedDoc,
                    ci_conflictRevs = conflicts_of encryptedDoc, ci_winner = winner,
                    ci_losers = recovered_losers pf ?h (db st1) (raw_id encryptedDoc)
                                  (conflicts_of encryptedDoc)\<rparr>), st2)"
    by blast
  show ?thesis
    using stored conflicts d b
    by (simp add: getConflictInfo_def getConflictInfo_body_def i(2,3) conflict_of_def table_of_def
        ident_of_def p split: option.split)
qed

text \<open>
  Claim C6, as amended. Let the helper satisfy its invariant. For a parsable full
  identifier and any list of \<open>M\<close> competing revisions of which \<open>L\<close> load and decrypt,
  the loop of \<open>buildConflictInfo\<close> never fails: it collects exactly the \<open>L\<close> recovered
  versions as losers and the \<open>M - L\<close> failures as errors. If there are errors and an error
  listener is registered, that listener is invoked once, with all of them. If this
  invocation throws, \<open>buildConflictInfo\<close> throws the same exception and \<open>getConflictInfo\<close>
  returns \<open>null\<close>; in every other case \<open>buildConflictInfo\<close> returns the \<open>ConflictInfo\<close>
  with the supplied winner and the \<open>L\<close> losers, and \<open>getConflictInfo\<close>, for a stored
  document with a decryptable current version and competing revisions, returns it with
  the decrypted current version as the winner.
\<close>

theorem conflict_info_construction:
  assumes "helper_ok (encryptionHelper st)"
  shows
    "(\<forall>t i. parseFullId fullId = Some (t, i) \<longrightarrow>
        (\<exists>st'. buildConflictInfo pf fullId currentRev conflictRevs winnerDoc st =
           ((case (if revision_errors pf (encryptionHelper st) (db st) fullId conflictRevs \<noteq> []
                      \<and> has_onError (listener st)
                   then listener_throws (listener st)
                          (OnError (revision_errors pf (encryptionHelper st) (db st) fullId conflictRevs))
                   else None) of
               Some e \<Rightarrow> Inl e
             | None \<Rightarrow>
                 Inr \<lparr>ci_docId = fullId, ci_table = t, ci_id = i, ci_currentRev = currentRev,
                      ci_conflictRevs = conflictRevs, ci_winner = winnerDoc,
                      ci_losers = recovered_losers pf (encryptionHelper st) (db st) fullId conflictRevs\<rparr>),
            st')
         \<and> calls st' = calls st @
              (if revision_errors pf (encryptionHelper st) (db st) fullId conflictRevs \<noteq> []
                  \<and> has_onError (listener st)
               then [OnError (revision_errors pf (encryptionHelper st) (db st) fullId conflictRevs)]
               else [])))
     \<and> length (recovered_losers pf (encryptionHelper st) (db st) fullId conflictRevs)
         = length (filter (recovers pf (encryptionHelper st) (db st) fullId) conflictRevs)
     \<and> length (revision_errors pf (encryptionHelper st) (db st) fullId conflictRevs)
         = length conflictRevs
           - length (filter (recovers pf (encryptionHelper st) (db st) fullId) conflictRevs)
     \<and> (\<forall>encryptedDoc winner.
          db_get (db st) (table @ js ''_'' @ ident) = Inr encryptedDoc
          \<and> has_conflicts encryptedDoc
          \<and> decryptDoc_result pf (encryptionHelper st) encryptedDoc = Inr winner \<longrightarrow>
          (case (if revision_errors pf (encryptionHelper st) (db st) (raw_id encryptedDoc)
                      (conflicts_of encryptedDoc) \<noteq> [] \<and> has_onError (listener st)
                 then listener_throws (listener st)
                        (OnError (revision_errors pf (encryptionHelper st) (db st)
                                    (raw_id encryptedDoc) (conflicts_of encryptedDoc)))
                 else None) of
             Some e \<Rightarrow> fst (getConflictInfo pf table ident st) = Inr None
           | None \<Rightarrow>
               (\<exists>info. fst (getConflictInfo pf table ident st) = Inr (Some info)
                  \<and> ci_winner info = winner
                  \<and> ci_conflictRevs info = conflicts_of encryptedDoc
                  \<and> ci_losers info = recovered_losers pf (encryptionHelper st) (db st)
                                        (raw_id encryptedDoc) (conflicts_of encryptedDoc))))"
proof -
  let ?h = "encryptionHelper st"
  have inv: "helper_inv ?h st" by (rule helper_inv_init [OF assms(1)])
  have 1: "\<exists>st'. buildConflictInfo pf fullId currentRev conflictRevs winnerDoc st =
           ((case (if revision_errors pf ?h (db st) fullId conflictRevs \<noteq> [] \<and> has_onError (listener st)
                   then listener_throws (listener st)
                          (OnError (revision_errors pf ?h (db st) fullId conflictRevs))
                   else None) of
               Some e \<Rightarrow> Inl e
             | None \<Rightarrow>
                 Inr \<lparr>ci_docId = fullId, ci_table = t, ci_id = i, ci_currentRev = currentRev,
                      ci_conflictRevs = conflictRevs, ci_winner = winnerDoc,
                      ci_losers = recovered_losers pf ?h (db st) fullId conflictRevs\<rparr>), st')
         \<and> calls st' = calls st @
              (if revision_errors pf ?h (db st) fullId conflictRevs \<noteq> [] \<and> has_onError (listener st)
               then [OnError (revision_errors pf ?h (db st) fullId conflictRevs)] else [])"
    if "parseFullId fullId = Some (t, i)" for t i
    using buildConflictInfo_cases [OF inv that, of pf currentRev conflictRevs winnerDoc]
    by blast
  have 4: "case (if revision_errors pf ?h (db st) (raw_id encryptedDoc)
                      (conflicts_of encryptedDoc) \<noteq> [] \<and> has_onError (listener st)
                 then listener_throws (listener st)
                        (OnError (revision_errors pf ?h (db st)
                                    (raw_id encryptedDoc) (conflicts_of encryptedDoc)))
                 else None) of
             Some e \<Rightarrow> fst (getConflictInfo pf table ident st) = Inr None
           | None \<Rightarrow>
               (\<exists>info. fst (getConflictInfo pf table ident st) = Inr (Some info)
                  \<and> ci_winner info = winner
                  \<and> ci_conflictRevs info = conflicts_of encryptedDoc
                  \<and> ci_losers info = recovered_losers pf ?h (db st)
                                        (raw_id encryptedDoc) (conflicts_of encryptedDoc))"
    if a: "db_get (db st) (table @ js ''_'' @ ident) = Inr encryptedDoc
          \<and> has_conflicts encryptedDoc
          \<and> decryptDoc_result pf ?h encryptedDoc = Inr winner" for encryptedDoc winner
    using getConflictInfo_cases [OF assms(1), of table ident encryptedDoc pf winner] a
    by (simp add: conflict_of_def split: option.split)
  from 1 4 length_recovered [of pf ?h "db st" fullId conflictRevs]
    length_errors [of pf ?h "db st" fullId conflictRevs]
  show ?thesis by blast
qed

lemma decryptDoc_loser:
  "decryptDoc_result toy_platform toy_helper loser_doc
     = Inr [(js ''_id'', JStr (js ''lunch'')), (js ''_rev'', JStr (js ''2-b''))]"
  by (simp add: decryptDoc_result_def loser_doc_def parse_lunch decrypt_property_result_def
      decrypt_payload toy_platform_def spread_props_def spread_into_def)

lemma conflicted_fields:
  "encryptionHelper conflicted_pouch = toy_helper"
  "db conflicted_pouch
     = toy_db [lunch_row (Some [js ''2-b'', js ''2-c''])] [(js ''2-b'', loser_doc)]"
  "listener conflicted_pouch = full_listener" "calls conflicted_pouch = []"
  by (simp_all add: conflicted_pouch_def toy_pouch_fields)

lemma revs_distinct: "js ''2-c'' \<noteq> js ''2-b''"
  by (simp add: js_def)

lemma loser_results:
  "loser_result toy_platform toy_helper (db conflicted_pouch) (js ''expenses_lunch'') (js ''2-b'')
     = Inr [(js ''_id'', JStr (js ''lunch'')), (js ''_rev'', JStr (js ''2-b''))]"
  "loser_result toy_platform toy_helper (db conflicted_pouch) (js ''expenses_lunch'') (js ''2-c'')
     = Inl not_found"
  by (simp_all add: loser_result_def conflicted_fields toy_db_def decryptDoc_loser revs_distinct)

lemma toy_recovered:
  "recovered_losers toy_platform toy_helper (db conflicted_pouch) (js ''expenses_lunch'')
      [js ''2-b'', js ''2-c'']
     = [[(js ''_id'', JStr (js ''lunch'')), (js ''_rev'', JStr (js ''2-b''))]]"
  by (simp add: recovered_losers_def List.map_filter_simps loser_results)

lemma toy_errors:
  "revision_errors toy_platform toy_helper (db conflicted_pouch) (js ''expenses_lunch'')
      [js ''2-b'', js ''2-c'']
     = [conflict_error (js ''expenses_lunch'') (js ''2-c'') not_found]"
  by (simp add: revision_errors_def List.map_filter_simps loser_results)

lemma toy_recovers:
  "filter (recovers toy_platform toy_helper (db conflicted_pouch) (js ''expenses_lunch''))
      [js ''2-b'', js ''2-c''] = [js ''2-b'']"
  by (simp add: recovers_def loser_results)

text \<open>
  Claim C6, witness: \<open>expenses_lunch\<close> with the competing revisions \<open>2-b\<close>, which
  decrypts, and \<open>2-c\<close>, which the store does not have.
\<close>

theorem conflict_info_construction_witness:
  "helper_ok (encryptionHelper conflicted_pouch)
   \<and> listener_throws (listener conflicted_pouch)
         (OnError [conflict_error (js ''expenses_lunch'') (js ''2-c'') not_found]) = None
   \<and> parseFullId (js ''expenses_lunch'') = Some (js ''expenses'', js ''lunch'')
   \<and> (\<exists>st'. buildConflictInfo toy_platform (js ''expenses_lunch'') (js ''2-a'')
               [js ''2-b'', js ''2-c'']
               [(js ''_id'', JStr (js ''lunch'')), (js ''_rev'', JStr (js ''2-a''))] conflicted_pouch
         = (Inr \<lparr>ci_docId = js ''expenses_lunch'', ci_table = js ''expenses'', ci_id = js ''lunch'',
                 ci_currentRev = js ''2-a'', ci_conflictRevs = [js ''2-b'', js ''2-c''],
                 ci_winner = [(js ''_id'', JStr (js ''lunch'')), (js ''_rev'', JStr (js ''2-a''))],
                 ci_losers = [[(js ''_id'', JStr (js ''lunch'')), (js ''_rev'', JStr (js ''2-b''))]]\<rparr>,
            st')
         \<and> calls st' = [OnError [conflict_error (js ''expenses_lunch'') (js ''2-c'') not_found]])
   \<and> db_get (db conflicted_pouch) (js ''expenses'' @ js ''_'' @ js ''lunch'')
       = Inr (lunch_doc (Some [js ''2-b'', js ''2-c'']))
   \<and> has_conflicts (lunch_doc (Some [js ''2-b'', js ''2-c'']))
   \<and> decryptDoc_result toy_platform (encryptionHelper conflicted_pouch)
         (lunch_doc (Some [js ''2-b'', js ''2-c'']))
       = Inr [(js ''_id'', JStr (js ''lunch'')), (js ''_rev'', JStr (js ''2-a''))]
   \<and> (\<exists>info. fst (getConflictInfo toy_platform (js ''expenses'') (js ''lunch'') conflicted_pouch)
          = Inr (Some info)
        \<and> ci_winner info = [(js ''_id'', JStr (js ''lunch'')), (js ''_rev'', JStr (js ''2-a''))]
        \<and> ci_losers info = [[(js ''_id'', JStr (js ''lunch'')), (js ''_rev'', JStr (js ''2-b''))]])"
proof -
  have 1: "helper_ok (encryptionHelper conflicted_pouch)"
    by (simp add: conflicted_fields toy_helper_ok)
  have 2: "listener_throws (listener conflicted_pouch) n = None" for n
    by (simp add: conflicted_fields full_listener_def)
  have 3: "db_get (db conflicted_pouch) (js ''expenses'' @ js ''_'' @ js ''lunch'')
       = Inr (lunch_doc (Some [js ''2-b'', js ''2-c'']))"
    by (simp add: conflicted_fields js_lunch_id toy_db_get_lunch)
  have 4: "has_conflicts (lunch_doc (Some [js ''2-b'', js ''2-c'']))"
    by (simp add: has_conflicts_def lunch_doc_fields)
  have 5: "decryptDoc_result toy_platform (encryptionHelper conflicted_pouch)
         (lunch_doc (Some [js ''2-b'', js ''2-c'']))
       = Inr [(js ''_id'', JStr (js ''lunch'')), (js ''_rev'', JStr (js ''2-a''))]"
    by (simp add: conflicted_fields decryptDoc_lunch)
  have 6: "has_onError (listener conflicted_pouch)"
    by (simp add: conflicted_fields full_listener_def)
  from conflict_info_construction [OF 1, of "js ''expenses_lunch''" toy_platform "js ''2-a''"
      "[js ''2-b'', js ''2-c'']" "[(js ''_id'', JStr (js ''lunch'')), (js ''_rev'', JStr (js ''2-a''))]"
      "js ''expenses''" "js ''lunch''"]
    1 2 3 4 5 6 parse_lunch
  show ?thesis
    by (simp add: conflicted_fields(1,4) toy_recovered [simplified conflicted_fields(1)]
        toy_errors [simplified conflicted_fields(1)] conflicts_of_def lunch_doc_fields
        toy_recovered toy_errors) blast
qed

lemma angry_fields:
  "encryptionHelper angry_pouch = toy_helper" "db angry_pouch = db conflicted_pouch"
  "listener angry_pouch = throwing_listener" "calls angry_pouch = []"
  by (simp_all add: angry_pouch_def conflicted_pouch_def toy_pouch_fields)

lemma throwing_listener_fields:
  "has_onError throwing_listener" "has_onConflict throwing_listener"
  "listener_throws throwing_listener (OnError es) = Some boom"
  "listener_throws throwing_listener (OnConflict cs) = None"
  by (simp_all add: throwing_listener_def)

text \<open>
  Claim C6, counterexample: the store of the witness with a listener whose error callback
  throws. The current version of \<open>expenses_lunch\<close> decrypts, and of its two competing
  revisions one decrypts; \<open>buildConflictInfo\<close> throws what the callback throws, and
  \<open>getConflictInfo\<close> returns \<open>null\<close>.
\<close>

theorem conflict_info_counterexample:
  "decryptDoc_result toy_platform (encryptionHelper angry_pouch)
       (lunch_doc (Some [js ''2-b'', js ''2-c'']))
     = Inr [(js ''_id'', JStr (js ''lunch'')), (js ''_rev'', JStr (js ''2-a''))]
   \<and> filter (recovers toy_platform (encryptionHelper angry_pouch) (db angry_pouch)
               (js ''expenses_lunch'')) [js ''2-b'', js ''2-c''] = [js ''2-b'']
   \<and> fst (buildConflictInfo toy_platform (js ''expenses_lunch'') (js ''2-a'')
            [js ''2-b'', js ''2-c'']
            [(js ''_id'', JStr (js ''lunch'')), (js ''_rev'', JStr (js ''2-a''))] angry_pouch)
     = Inl boom
   \<and> fst (getConflictInfo toy_platform (js ''expenses'') (js ''lunch'') angry_pouch) = Inr None"
proof -
  have ok: "helper_ok (encryptionHelper angry_pouch)"
    by (simp add: angry_fields toy_helper_ok)
  have 1: "decryptDoc_result toy_platform (encryptionHelper angry_pouch)
       (lunch_doc (Some [js ''2-b'', js ''2-c'']))
     = Inr [(js ''_id'', JStr (js ''lunch'')), (js ''_rev'', JStr (js ''2-a''))]"
    by (simp add: angry_fields decryptDoc_lunch)
  have 2: "filter (recovers toy_platform (encryptionHelper angry_pouch) (db angry_pouch)
               (js ''expenses_lunch'')) [js ''2-b'', js ''2-c''] = [js ''2-b'']"
    by (simp only: angry_fields toy_recovers)
  have e: "revision_errors toy_platform (encryptionHelper angry_pouch) (db angry_pouch)
             (js ''expenses_lunch'') [js ''2-b'', js ''2-c'']
           = [conflict_error (js ''expenses_lunch'') (js ''2-c'') not_found]"
    by (simp only: angry_fields toy_errors)
  from buildConflictInfo_cases [OF helper_inv_init [OF ok] parse_lunch, of toy_platform
      "js ''2-a''" "[js ''2-b'', js ''2-c'']"
      "[(js ''_id'', JStr (js ''lunch'')), (js ''_rev'', JStr (js ''2-a''))]"]
  have 3: "fst (buildConflictInfo toy_platform (js ''expenses_lunch'') (js ''2-a'')
            [js ''2-b'', js ''2-c'']
            [(js ''_id'', JStr (js ''lunch'')), (js ''_rev'', JStr (js ''2-a''))] angry_pouch)
     = Inl boom"
    by (auto simp: e angry_fields(3) throwing_listener_fields)
  have s: "db_get (db angry_pouch) (js ''expenses'' @ js ''_'' @ js ''lunch'')
       = Inr (lunch_doc (Some [js ''2-b'', js ''2-c'']))"
    by (simp add: angry_fields conflicted_fields js_lunch_id toy_db_get_lunch)
  have c: "has_conflicts (lunch_doc (Some [js ''2-b'', js ''2-c'']))"
    by (simp add: has_conflicts_def lunch_doc_fields)
  have r: "raw_id (lunch_doc (Some [js ''2-b'', js ''2-c''])) = js ''expenses_lunch''"
    "conflicts_of (lunch_doc (Some [js ''2-b'', js ''2-c''])) = [js ''2-b'', js ''2-c'']"
    by (simp_all add: conflicts_of_def lunch_doc_fields)
  have 4: "fst (getConflictInfo toy_platform (js ''expenses'') (js ''lunch'') angry_pouch) = Inr None"
    using getConflictInfo_cases [OF ok s c 1]
    by (simp add: r e angry_fields(3) throwing_listener_fields)
  from 1 2 3 4 show ?thesis by blast
qed
subsection \<open>Reading one document\<close>

text \<open>
  \<open>get\<close> for a stored document that decrypts and has competing revisions, with a conflict
  listener registered: the invocations of the listener, and the result.
\<close>

lemma get_conflict_calls:
  assumes ok: "helper_ok (encryptionHelper st)"
    and stored: "db_get (db st) (table @ js ''_'' @ ident) = Inr encryptedDoc"
    and current: "decryptDoc_result pf (encryptionHelper st) encryptedDoc = Inr doc"
    and conflicts: "has_conflicts encryptedDoc" and registered: "has_onConflict (listener st)"
  shows "calls (snd (get pf table ident st)) =
           calls st
           @ (if revision_errors pf (encryptionHelper st) (db st) (raw_id encryptedDoc)
                   (conflicts_of encryptedDoc) \<noteq> [] \<and> has_onError (listener st)
              then [OnError (revision_errors pf (encryptionHelper st) (db st) (raw_id encryptedDoc)
                               (conflicts_of encryptedDoc))]
              else [])
           @ (if revision_errors pf (encryptionHelper st) (db st) (raw_id encryptedDoc)
                   (conflicts_of encryptedDoc) \<noteq> [] \<and> has_onError (listener st)
                 \<and> listener_throws (listener st)
                      (OnError (revision_errors pf (encryptionHelper st) (db st)
                                  (raw_id encryptedDoc) (conflicts_of encryptedDoc))) \<noteq> None
              then []
              else [OnConflict [conflict_of pf (encryptionHelper st) (db st) (encryptedDoc, doc)]])"
proof -
  let ?h = "encryptionHelper st"
  let ?errs = "revision_errors pf ?h (db st) (raw_id encryptedDoc) (conflicts_of encryptedDoc)"
  have inv: "helper_inv ?h st" by (rule helper_inv_init [OF ok])
  from current obtain t i where p: "parseFullId (raw_id encryptedDoc) = Some (t, i)"
    by (auto simp: decryptDoc_result_def split: option.splits)
  from decryptDoc_inv [OF inv, of pf encryptedDoc] current obtain st1 where
    d: "decryptDoc pf encryptedDoc st = (Inr doc, st1)"
    and i: "helper_inv ?h st1" "db st1 = db st" "listener st1 = listener st" "calls st1 = calls st"
    by auto
  have ci: "\<lparr>ci_docId = raw_id encryptedDoc, ci_table = t, ci_id = i,
               ci_currentRev = raw_rev encryptedDoc, ci_conflictRevs = conflicts_of encryptedDoc,
               ci_winner = doc,
               ci_losers = recovered_losers pf ?h (db st) (raw_id encryptedDoc)
                             (conflicts_of encryptedDoc)\<rparr>
             = conflict_of pf ?h (db st) (encryptedDoc, doc)"
    by (simp add: conflict_of_def table_of_def ident_of_def p)
  note bc = buildConflictInfo_cases [OF i(1) p, of pf "raw_rev encryptedDoc"
      "conflicts_of encryptedDoc" doc, unfolded i(2) i(3) i(4) ci]
  from bc obtain st2 where
    b: "buildConflictInfo pf (raw_id encryptedDoc) (raw_rev encryptedDoc)
          (conflicts_of encryptedDoc) doc st1 =
         ((case (if ?errs \<noteq> [] \<and> has_onError (listener st)
                 then listener_throws (listener st) (OnError ?errs) else None) of
             Some e \<Rightarrow> Inl e
           | None \<Rightarrow> Inr (conflict_of pf ?h (db st) (encryptedDoc, doc))), st2)"
    and j: "listener st2 = listener st"
      "calls st2 = calls st @ (if ?errs \<noteq> [] \<and> has_onError (listener st) then [OnError ?errs] else [])"
    by blast
  show ?thesis
  proof (cases "?errs \<noteq> [] \<and> has_onError (listener st)
                 \<and> listener_throws (listener st) (OnError ?errs) \<noteq> None")
    case True
    then obtain e where e: "listener_throws (listener st) (OnError ?errs) = Some e" by auto
    have "get_body pf table ident st = (Inl e, st2)"
      using True e stored conflicts registered
      by (simp add: get_body_def d b i(3))
    then show ?thesis using True j by (simp add: get_cases)
  next
    case False
    then have n: "(if ?errs \<noteq> [] \<and> has_onError (listener st)
                   then listener_throws (listener st) (OnError ?errs) else None) = None"
      by auto
    have "snd (get_body pf table ident st)
            = snd (call_listener (OnConflict [conflict_of pf ?h (db st) (encryptedDoc, doc)]) st2)"
      using stored conflicts registered
      by (simp add: get_body_def d b n i(3) split: prod.split sum.split)
    then show ?thesis using False j by (auto simp: get_cases call_listener_def)
  qed
qed

text \<open>
  Claim C9, as amended. \<open>get\<close> never throws, and every failure of its \<open>try\<close> block
  yields \<open>null\<close>. When the document is absent, or when the document itself fails to
  decrypt, no listener is invoked at all, and none is invoked either when the stored record
  has no competing revisions or no conflict listener is registered. When the document
  decrypts, has competing revisions and a conflict listener is registered, \<open>get\<close> invokes
  the error listener once, with the competing revisions that failed to load or decrypt, if
  there are such revisions and an error listener is registered, and then the conflict
  listener, unless that invocation of the error listener threw. The error listener is
  invoked in no other case.
\<close>

theorem get_returns_null_on_failure:
  "(\<exists>r. fst (get pf table ident st) = Inr r)
   \<and> (\<forall>e. fst (get_body pf table ident st) = Inl e \<longrightarrow> fst (get pf table ident st) = Inr None)
   \<and> (\<forall>e. db_get (db st) (table @ js ''_'' @ ident) = Inl e \<longrightarrow>
         get pf table ident st = (Inr None, st))
   \<and> (\<forall>encryptedDoc e.
         db_get (db st) (table @ js ''_'' @ ident) = Inr encryptedDoc
         \<and> fst (decryptDoc pf encryptedDoc st) = Inl e \<longrightarrow>
         fst (get pf table ident st) = Inr None \<and> calls (snd (get pf table ident st)) = calls st)
   \<and> (\<forall>encryptedDoc.
         db_get (db st) (table @ js ''_'' @ ident) = Inr encryptedDoc
         \<and> \<not> (has_conflicts encryptedDoc \<and> has_onConflict (listener st)) \<longrightarrow>
         calls (snd (get pf table ident st)) = calls st)
   \<and> (\<forall>encryptedDoc doc.
         helper_ok (encryptionHelper st)
         \<and> db_get (db st) (table @ js ''_'' @ ident) = Inr encryptedDoc
         \<and> decryptDoc_result pf (encryptionHelper st) encryptedDoc = Inr doc
         \<and> has_conflicts encryptedDoc \<and> has_onConflict (listener st) \<longrightarrow>
         calls (snd (get pf table ident st)) =
           calls st
           @ (if revision_errors pf (encryptionHelper st) (db st) (raw_id encryptedDoc)
                   (conflicts_of encryptedDoc) \<noteq> [] \<and> has_onError (listener st)
              then [OnError (revision_errors pf (encryptionHelper st) (db st) (raw_id encryptedDoc)
                               (conflicts_of encryptedDoc))]
              else [])
           @ (if revision_errors pf (encryptionHelper st) (db st) (raw_id encryptedDoc)
                   (conflicts_of encryptedDoc) \<noteq> [] \<and> has_onError (listener st)
                 \<and> listener_throws (listener st)
                      (OnError (revision_errors pf (encryptionHelper st) (db st)
                                  (raw_id encryptedDoc) (conflicts_of encryptedDoc))) \<noteq> None
              then []
              else [OnConflict [conflict_of pf (encryptionHelper st) (db st) (encryptedDoc, doc)]]))
   \<and> (\<forall>es.
         helper_ok (encryptionHelper st)
         \<and> OnError es \<in> set (drop (length (calls st)) (calls (snd (get pf table ident st)))) \<longrightarrow>
         (\<exists>encryptedDoc doc.
            db_get (db st) (table @ js ''_'' @ ident) = Inr encryptedDoc
            \<and> decryptDoc_result pf (encryptionHelper st) encryptedDoc = Inr doc
            \<and> has_conflicts encryptedDoc \<and> has_onConflict (listener st)
            \<and> has_onError (listener st)
            \<and> es = revision_errors pf (encryptionHelper st) (db st) (raw_id encryptedDoc)
                     (conflicts_of encryptedDoc)
            \<and> es \<noteq> []))"
proof -
  have 1: "\<exists>r. fst (get pf table ident st) = Inr r"
    by (simp add: get_cases split: sum.splits)
  have 2: "fst (get pf table ident st) = Inr None"
    if "fst (get_body pf table ident st) = Inl e" for e
    using that by (simp add: get_cases)
  have 3: "get pf table ident st = (Inr None, st)"
    if "db_get (db st) (table @ js ''_'' @ ident) = Inl e" for e
    using that by (simp add: get_def get_body_def)
  have 4: "fst (get pf table ident st) = Inr None \<and> calls (snd (get pf table ident st)) = calls st"
    if a: "db_get (db st) (table @ js ''_'' @ ident) = Inr encryptedDoc
         \<and> fst (decryptDoc pf encryptedDoc st) = Inl e" for encryptedDoc e
  proof -
    from a have "get_body pf table ident st = (Inl e, snd (decryptDoc pf encryptedDoc st))"
      by (cases "decryptDoc pf encryptedDoc st") (simp add: get_body_def)
    then show ?thesis by (simp add: get_cases decryptDoc_calls)
  qed
  have 5: "calls (snd (get pf table ident st)) = calls st"
    if a: "db_get (db st) (table @ js ''_'' @ ident) = Inr encryptedDoc
         \<and> \<not> (has_conflicts encryptedDoc \<and> has_onConflict (listener st))" for encryptedDoc
  proof -
    have l: "listener (snd (decryptDoc pf encryptedDoc st)) = listener st"
      by (rule frame_fields [OF frame_decryptDoc])
    from a have "snd (get_body pf table ident st) = snd (decryptDoc pf encryptedDoc st)"
      using l by (cases "decryptDoc pf encryptedDoc st") (auto simp: get_body_def split: sum.splits)
    then show ?thesis by (simp add: get_cases decryptDoc_calls)
  qed
  have 6: "calls (snd (get pf table ident st)) =
           calls st
           @ (if revision_errors pf (encryptionHelper st) (db st) (raw_id encryptedDoc)
                   (conflicts_of encryptedDoc) \<noteq> [] \<and> has_onError (listener st)
              then [OnError (revision_errors pf (encryptionHelper st) (db st) (raw_id encryptedDoc)
                               (conflicts_of encryptedDoc))]
              else [])
           @ (if revision_errors pf (encryptionHelper st) (db st) (raw_id encryptedDoc)
                   (conflicts_of encryptedDoc) \<noteq> [] \<and> has_onError (listener st)
                 \<and> listener_throws (listener st)
                      (OnError (revision_errors pf (encryptionHelper st) (db st)
                                  (raw_id encryptedDoc) (conflicts_of encryptedDoc))) \<noteq> None
              then []
              else [OnConflict [conflict_of pf (encryptionHelper st) (db st) (encryptedDoc, doc)]])"
    if a: "helper_ok (encryptionHelper st)
         \<and> db_get (db st) (table @ js ''_'' @ ident) = Inr encryptedDoc
         \<and> decryptDoc_result pf (encryptionHelper st) encryptedDoc = Inr doc
         \<and> has_conflicts encryptedDoc \<and> has_onConflict (listener st)" for encryptedDoc doc
    using a by (intro get_conflict_calls) simp_all
  have 7: "\<exists>encryptedDoc doc.
            db_get (db st) (table @ js ''_'' @ ident) = Inr encryptedDoc
            \<and> decryptDoc_result pf (encryptionHelper st) encryptedDoc = Inr doc
            \<and> has_conflicts encryptedDoc \<and> has_onConflict (listener st)
            \<and> has_onError (listener st)
            \<and> es = revision_errors pf (encryptionHelper st) (db st) (raw_id encryptedDoc)
                     (conflicts_of encryptedDoc)
            \<and> es \<noteq> []"
    if a: "helper_ok (encryptionHelper st)
         \<and> OnError es \<in> set (drop (length (calls st)) (calls (snd (get pf table ident st))))" for es
  proof (cases "db_get (db st) (table @ js ''_'' @ ident)")
    case (Inl e)
    from 3 [OF Inl] a show ?thesis by simp
  next
    case (Inr encryptedDoc)
    show ?thesis
    proof (cases "decryptDoc_result pf (encryptionHelper st) encryptedDoc")
      case (Inl e)
      then have "fst (decryptDoc pf encryptedDoc st) = Inl e"
        using a by (simp add: decryptDoc_ok)
      with 4 [of encryptedDoc e] Inr a show ?thesis by simp
    next
      case doc: (Inr doc)
      show ?thesis
      proof (cases "has_conflicts encryptedDoc \<and> has_onConflict (listener st)")
        case False
        with 5 [of encryptedDoc] Inr a show ?thesis by simp
      next
        case True
        from 6 [of encryptedDoc doc] a Inr doc True
        have "OnError es \<in> set
                ((if revision_errors pf (encryptionHelper st) (db st) (raw_id encryptedDoc)
                       (conflicts_of encryptedDoc) \<noteq> [] \<and> has_onError (listener st)
                  then [OnError (revision_errors pf (encryptionHelper st) (db st)
                                   (raw_id encryptedDoc) (conflicts_of encryptedDoc))]
                  else [])
                 @ (if revision_errors pf (encryptionHelper st) (db st) (raw_id encryptedDoc)
                         (conflicts_of encryptedDoc) \<noteq> [] \<and> has_onError (listener st)
                       \<and> listener_throws (listener st)
                            (OnError (revision_errors pf (encryptionHelper st) (db st)
                                        (raw_id encryptedDoc) (conflicts_of encryptedDoc))) \<noteq> None
                    then []
                    else [OnConflict [conflict_of pf (encryptionHelper st) (db st)
                                        (encryptedDoc, doc)]]))"
          by simp
        then have "revision_errors pf (encryptionHelper st) (db st) (raw_id encryptedDoc)
                       (conflicts_of encryptedDoc) \<noteq> [] \<and> has_onError (listener st)
                   \<and> es = revision_errors pf (encryptionHelper st) (db st) (raw_id encryptedDoc)
                            (conflicts_of encryptedDoc)"
          by (auto split: if_splits)
        with Inr doc True show ?thesis by blast
      qed
    qed
  qed
  from 1 2 3 4 5 6 7 show ?thesis by blast
qed

text \<open>
  Claim C9 as stated (the error listener is never invoked) fails: for a document that
  decrypts and has a competing revision that cannot be loaded, with conflict and error
  listeners registered, \<open>buildConflictInfo\<close> reports the revision to the error listener
  before \<open>get\<close> returns the document.
\<close>

theorem get_error_listener_counterexample:
  "fst (get toy_platform (js ''expenses'') (js ''lunch'')
          (toy_pouch (toy_db [lunch_row (Some [js ''2-b''])] []) full_listener))
     = Inr (Some [(js ''_id'', JStr (js ''lunch'')), (js ''_rev'', JStr (js ''2-a''))])
   \<and> calls (snd (get toy_platform (js ''expenses'') (js ''lunch'')
          (toy_pouch (toy_db [lunch_row (Some [js ''2-b''])] []) full_listener)))
     = [OnError [conflict_error (js ''expenses_lunch'') (js ''2-b'') not_found],
        OnConflict
          [\<lparr>ci_docId = js ''expenses_lunch'', ci_table = js ''expenses'', ci_id = js ''lunch'',
            ci_currentRev = js ''2-a'', ci_conflictRevs = [js ''2-b''],
            ci_winner = [(js ''_id'', JStr (js ''lunch'')), (js ''_rev'', JStr (js ''2-a''))],
            ci_losers = []\<rparr>]]"
proof -
  let ?st = "toy_pouch (toy_db [lunch_row (Some [js ''2-b''])] []) full_listener"
  have d: "decryptDoc toy_platform (lunch_doc (Some [js ''2-b''])) ?st
     = (Inr [(js ''_id'', JStr (js ''lunch'')), (js ''_rev'', JStr (js ''2-a''))], warm ?st)"
    by (rule decryptDoc_toy_lunch) (simp_all add: toy_pouch_fields toy_helper_ok)
  have r: "db_get_rev (toy_db [lunch_row (Some [js ''2-b''])] []) i v = Inl not_found" for i v
    by (simp add: toy_db_def)
  have l: "has_onError full_listener" "has_onConflict full_listener"
    "listener_throws full_listener n = None" for n
    by (simp_all add: full_listener_def)
  show ?thesis
    by (simp add: get_def get_body_def js_lunch_id toy_pouch_fields toy_db_get_lunch d
        has_conflicts_def conflicts_of_def lunch_doc_fields l buildConflictInfo_def parse_lunch
        conflict_step_def r notify_if_def call_listener_def)
qed

text \<open>
  Claim C9, witness: an empty store, a store with a corrupted payload, a store with a
  sound document without conflicts, and the store of \<open>conflicted_pouch\<close>, whose document
  has a competing revision that cannot be loaded.
\<close>

theorem get_returns_null_on_failure_witness:
  "db_get (db (toy_pouch (toy_db [] []) default_listener)) (js ''expenses'' @ js ''_'' @ js ''lunch'')
     = Inl not_found
   \<and> fst (get_body toy_platform (js ''expenses'') (js ''lunch'')
            (toy_pouch (toy_db [] []) default_listener)) = Inl not_found
   \<and> get toy_platform (js ''expenses'') (js ''lunch'') (toy_pouch (toy_db [] []) default_listener)
     = (Inr None, toy_pouch (toy_db [] []) default_listener)
   \<and> db_get (db (toy_pouch (toy_db [corrupt_row] []) full_listener))
        (js ''expenses'' @ js ''_'' @ js ''lunch'') = Inr corrupt_doc
   \<and> (\<exists>m. fst (decryptDoc toy_platform corrupt_doc (toy_pouch (toy_db [corrupt_row] []) full_listener))
          = Inl (DecryptionError m))
   \<and> fst (get toy_platform (js ''expenses'') (js ''lunch'')
            (toy_pouch (toy_db [corrupt_row] []) full_listener)) = Inr None
   \<and> calls (snd (get toy_platform (js ''expenses'') (js ''lunch'')
            (toy_pouch (toy_db [corrupt_row] []) full_listener))) = []
   \<and> db_get (db (toy_pouch (toy_db [lunch_row None] []) full_listener))
        (js ''expenses'' @ js ''_'' @ js ''lunch'') = Inr (lunch_doc None)
   \<and> \<not> has_conflicts (lunch_doc None)
   \<and> calls (snd (get toy_platform (js ''expenses'') (js ''lunch'')
            (toy_pouch (toy_db [lunch_row None] []) full_listener))) = []
   \<and> helper_ok (encryptionHelper conflicted_pouch)
   \<and> db_get (db conflicted_pouch) (js ''expenses'' @ js ''_'' @ js ''lunch'')
       = Inr (lunch_doc (Some [js ''2-b'', js ''2-c'']))
   \<and> decryptDoc_result toy_platform (encryptionHelper conflicted_pouch)
         (lunch_doc (Some [js ''2-b'', js ''2-c'']))
       = Inr [(js ''_id'', JStr (js ''lunch'')), (js ''_rev'', JStr (js ''2-a''))]
   \<and> has_conflicts (lunch_doc (Some [js ''2-b'', js ''2-c'']))
   \<and> has_onConflict (listener conflicted_pouch)
   \<and> calls (snd (get toy_platform (js ''expenses'') (js ''lunch'') conflicted_pouch))
       = [OnError [conflict_error (js ''expenses_lunch'') (js ''2-c'') not_found],
          OnConflict
            [\<lparr>ci_docId = js ''expenses_lunch'', ci_table = js ''expenses'', ci_id = js ''lunch'',
              ci_currentRev = js ''2-a'', ci_conflictRevs = [js ''2-b'', js ''2-c''],
              ci_winner = [(js ''_id'', JStr (js ''lunch'')), (js ''_rev'', JStr (js ''2-a''))],
              ci_losers = [[(js ''_id'', JStr (js ''lunch'')), (js ''_rev'', JStr (js ''2-b''))]]\<rparr>]]
   \<and> OnError [conflict_error (js ''expenses_lunch'') (js ''2-c'') not_found]
       \<in> set (drop (length (calls conflicted_pouch))
                  (calls (snd (get toy_platform (js ''expenses'') (js ''lunch'') conflicted_pouch))))
   \<and> (\<exists>encryptedDoc doc.
          db_get (db conflicted_pouch) (js ''expenses'' @ js ''_'' @ js ''lunch'') = Inr encryptedDoc
          \<and> decryptDoc_result toy_platform (encryptionHelper conflicted_pouch) encryptedDoc = Inr doc
          \<and> has_conflicts encryptedDoc \<and> has_onConflict (listener conflicted_pouch)
          \<and> has_onError (listener conflicted_pouch)
          \<and> [conflict_error (js ''expenses_lunch'') (js ''2-c'') not_found]
              = revision_errors toy_platform (encryptionHelper conflicted_pouch) (db conflicted_pouch)
                  (raw_id encryptedDoc) (conflicts_of encryptedDoc))"
proof -
  let ?e = "toy_pouch (toy_db [] []) default_listener"
  let ?c = "toy_pouch (toy_db [corrupt_row] []) full_listener"
  let ?k = "toy_pouch (toy_db [lunch_row None] []) full_listener"
  have e1: "db_get (db ?e) (js ''expenses'' @ js ''_'' @ js ''lunch'') = Inl not_found"
    by (simp add: toy_pouch_fields toy_db_def)
  have e2: "fst (get_body toy_platform (js ''expenses'') (js ''lunch'') ?e) = Inl not_found"
    using e1 by (simp add: get_body_def)
  have c1: "db_get (db ?c) (js ''expenses'' @ js ''_'' @ js ''lunch'') = Inr corrupt_doc"
    by (simp add: toy_pouch_fields toy_db_def corrupt_row_def js_lunch_id)
  have c2: "\<exists>m. fst (decryptDoc toy_platform corrupt_doc ?c) = Inl (DecryptionError m)"
    using decryptDoc_corrupt by (simp add: decryptDoc_ok toy_pouch_fields toy_helper_ok)
  have k1: "db_get (db ?k) (js ''expenses'' @ js ''_'' @ js ''lunch'') = Inr (lunch_doc None)"
    by (simp add: toy_pouch_fields toy_db_get_lunch js_lunch_id)
  have k2: "\<not> has_conflicts (lunch_doc None)"
    by (simp add: has_conflicts_def lunch_doc_fields)
  from c2 obtain m where c2': "fst (decryptDoc toy_platform corrupt_doc ?c) = Inl (DecryptionError m)"
    by blast
  from get_returns_null_on_failure [of toy_platform "js ''expenses''" "js ''lunch''" ?e]
    get_returns_null_on_failure [of toy_platform "js ''expenses''" "js ''lunch''" ?c]
    get_returns_null_on_failure [of toy_platform "js ''expenses''" "js ''lunch''" ?k]
    e1 e2 c1 c2' k1 k2
  have first: "db_get (db (toy_pouch (toy_db [] []) default_listener)) (js ''expenses'' @ js ''_'' @ js ''lunch'')
     = Inl not_found
   \<and> fst (get_body toy_platform (js ''expenses'') (js ''lunch'')
            (toy_pouch (toy_db [] []) default_listener)) = Inl not_found
   \<and> get toy_platform (js ''expenses'') (js ''lunch'') (toy_pouch (toy_db [] []) default_listener)
     = (Inr None, toy_pouch (toy_db [] []) default_listener)
   \<and> db_get (db (toy_pouch (toy_db [corrupt_row] []) full_listener))
        (js ''expenses'' @ js ''_'' @ js ''lunch'') = Inr corrupt_doc
   \<and> (\<exists>m. fst (decryptDoc toy_platform corrupt_doc (toy_pouch (toy_db [corrupt_row] []) full_listener))
          = Inl (DecryptionError m))
   \<and> fst (get toy_platform (js ''expenses'') (js ''lunch'')
            (toy_pouch (toy_db [corrupt_row] []) full_listener)) = Inr None
   \<and> calls (snd (get toy_platform (js ''expenses'') (js ''lunch'')
            (toy_pouch (toy_db [corrupt_row] []) full_listener))) = []
   \<and> db_get (db (toy_pouch (toy_db [lunch_row None] []) full_listener))
        (js ''expenses'' @ js ''_'' @ js ''lunch'') = Inr (lunch_doc None)
   \<and> \<not> has_conflicts (lunch_doc None)
   \<and> calls (snd (get toy_platform (js ''expenses'') (js ''lunch'')
            (toy_pouch (toy_db [lunch_row None] []) full_listener))) = []"
    by (simp add: toy_pouch_fields)
  let ?d = "lunch_doc (Some [js ''2-b'', js ''2-c''])"
  let ?w = "[(js ''_id'', JStr (js ''lunch'')), (js ''_rev'', JStr (js ''2-a''))]"
  have g1: "helper_ok (encryptionHelper conflicted_pouch)"
    by (simp add: conflicted_fields toy_helper_ok)
  have g2: "db_get (db conflicted_pouch) (js ''expenses'' @ js ''_'' @ js ''lunch'') = Inr ?d"
    by (simp add: conflicted_fields js_lunch_id toy_db_get_lunch)
  have g3: "decryptDoc_result toy_platform (encryptionHelper conflicted_pouch) ?d = Inr ?w"
    by (simp add: conflicted_fields decryptDoc_lunch)
  have g4: "has_conflicts ?d" by (simp add: has_conflicts_def lunch_doc_fields)
  have g5: "has_onConflict (listener conflicted_pouch)" "has_onError (listener conflicted_pouch)"
    "listener_throws (listener conflicted_pouch) n = None" for n
    by (simp_all add: conflicted_fields full_listener_def)
  have g6: "revision_errors toy_platform (encryptionHelper conflicted_pouch) (db conflicted_pouch)
              (raw_id ?d) (conflicts_of ?d)
            = [conflict_error (js ''expenses_lunch'') (js ''2-c'') not_found]"
    "recovered_losers toy_platform (encryptionHelper conflicted_pouch) (db conflicted_pouch)
              (raw_id ?d) (conflicts_of ?d)
            = [[(js ''_id'', JStr (js ''lunch'')), (js ''_rev'', JStr (js ''2-b''))]]"
    by (simp_all add: conflicts_of_def lunch_doc_fields conflicted_fields(1) toy_errors toy_recovered)
  note t = get_returns_null_on_failure [of toy_platform "js ''expenses''" "js ''lunch''" conflicted_pouch]
  let ?errs = "revision_errors toy_platform (encryptionHelper conflicted_pouch) (db conflicted_pouch)
              (raw_id ?d) (conflicts_of ?d)"
  from t g1 g2 g3 g4 g5(1)
  have t6: "calls (snd (get toy_platform (js ''expenses'') (js ''lunch'') conflicted_pouch)) =
           calls conflicted_pouch
           @ (if ?errs \<noteq> [] \<and> has_onError (listener conflicted_pouch)
              then [OnError ?errs] else [])
           @ (if ?errs \<noteq> [] \<and> has_onError (listener conflicted_pouch)
                 \<and> listener_throws (listener conflicted_pouch) (OnError ?errs) \<noteq> None
              then []
              else [OnConflict [conflict_of toy_platform (encryptionHelper conflicted_pouch)
                                  (db conflicted_pouch) (?d, ?w)]])"
    by blast
  have g7: "calls (snd (get toy_platform (js ''expenses'') (js ''lunch'') conflicted_pouch))
       = [OnError [conflict_error (js ''expenses_lunch'') (js ''2-c'') not_found],
          OnConflict
            [\<lparr>ci_docId = js ''expenses_lunch'', ci_table = js ''expenses'', ci_id = js ''lunch'',
              ci_currentRev = js ''2-a'', ci_conflictRevs = [js ''2-b'', js ''2-c''],
              ci_winner = ?w,
              ci_losers = [[(js ''_id'', JStr (js ''lunch'')), (js ''_rev'', JStr (js ''2-b''))]]\<rparr>]]"
    unfolding t6 conflict_of_def fst_conv snd_conv g6
    by (simp add: g5 conflicted_fields(4) table_of_def ident_of_def
        lunch_doc_fields parse_lunch conflicts_of_def)
  then have g8: "OnError [conflict_error (js ''expenses_lunch'') (js ''2-c'') not_found]
       \<in> set (drop (length (calls conflicted_pouch))
                  (calls (snd (get toy_platform (js ''expenses'') (js ''lunch'') conflicted_pouch))))"
    by (simp add: conflicted_fields(4))
  from t g1 g8
  have g9: "\<exists>encryptedDoc doc.
          db_get (db conflicted_pouch) (js ''expenses'' @ js ''_'' @ js ''lunch'') = Inr encryptedDoc
          \<and> decryptDoc_result toy_platform (encryptionHelper conflicted_pouch) encryptedDoc = Inr doc
          \<and> has_conflicts encryptedDoc \<and> has_onConflict (listener conflicted_pouch)
          \<and> has_onError (listener conflicted_pouch)
          \<and> [conflict_error (js ''expenses_lunch'') (js ''2-c'') not_found]
              = revision_errors toy_platform (encryptionHelper conflicted_pouch) (db conflicted_pouch)
                  (raw_id encryptedDoc) (conflicts_of encryptedDoc)"
    by blast
  from first g1 g2 g3 g4 g5(1) g7 g8 g9 show ?thesis by blast
qed
subsection \<open>Bulk load\<close>

subsection \<open>The bulk load\<close>

lemma scan_rows_append: "scan_rows pf h (xs @ ys) = scan_rows pf h xs @ scan_rows pf h ys"
  by (simp add: scan_rows_def map_filter_append)

lemma loaded_docs_append:
  "loaded_docs pf h (xs @ ys) = loaded_docs pf h xs @ loaded_docs pf h ys"
  by (simp add: loaded_docs_def scan_rows_append map_filter_append)

lemma load_errors_append:
  "load_errors pf h (xs @ ys) = load_errors pf h xs @ load_errors pf h ys"
  by (simp add: load_errors_def scan_rows_append map_filter_append)

lemma load_conflicts_append:
  "load_conflicts pf h d (xs @ ys) = load_conflicts pf h d xs @ load_conflicts pf h d ys"
  by (simp add: load_conflicts_def loaded_docs_append)

lemma load_revision_calls_append:
  "load_revision_calls pf h d b (xs @ ys)
     = load_revision_calls pf h d b xs @ load_revision_calls pf h d b ys"
  by (simp add: load_revision_calls_def loaded_docs_append)

lemma group_docs_append: "group_docs m (xs @ ys) = group_docs (group_docs m xs) ys"
  by (simp add: group_docs_def)

lemma scan_rows_skip:
  "row_doc r = None \<Longrightarrow> scan_rows pf h [r] = []"
  "row_doc r = Some d \<Longrightarrow> startsWith (row_id r) (js ''_design/'') \<Longrightarrow> scan_rows pf h [r] = []"
  "row_doc r = Some d \<Longrightarrow> \<not> truthy (raw_d d) \<Longrightarrow> scan_rows pf h [r] = []"
  by (simp_all add: scan_rows_def)

lemma scan_rows_try:
  "row_doc r = Some d \<Longrightarrow> \<not> startsWith (row_id r) (js ''_design/'') \<Longrightarrow> truthy (raw_d d) \<Longrightarrow>
   scan_rows pf h [r] = [(d, decryptDoc_result pf h d)]"
  by (simp add: scan_rows_def)

lemma decryptDoc_result_parsed:
  "decryptDoc_result pf h d = Inr doc \<Longrightarrow>
   parseFullId (raw_id d) = Some (table_of d, ident_of d)"
  by (auto simp: decryptDoc_result_def table_of_def ident_of_def split: option.splits)

lemma loadAll_row_inv:
  assumes inv: "helper_inv h st" and quiet: "\<forall>n. listener_throws (listener st) n = None"
  shows "\<exists>st'. loadAll_row pf ((m, es, cs), st) r =
           ((group_docs m (loaded_docs pf h [r]), es @ load_errors pf h [r],
             cs @ load_conflicts pf h (db st) [r]), st')
         \<and> helper_inv h st' \<and> db st' = db st \<and> listener st' = listener st
         \<and> calls st' = calls st @ load_revision_calls pf h (db st) (has_onError (listener st)) [r]"
proof (cases "row_doc r")
  case None
  then show ?thesis
    using inv
    by (simp add: loadAll_row_def loaded_docs_def load_errors_def load_conflicts_def
        load_revision_calls_def scan_rows_skip group_docs_def)
next
  case (Some d)
  show ?thesis
  proof (cases "startsWith (row_id r) (js ''_design/'') \<or> \<not> truthy (raw_d d)")
    case True
    then have "scan_rows pf h [r] = []" using Some scan_rows_skip by blast
    then show ?thesis
      using inv Some True
      by (auto simp: loadAll_row_def loaded_docs_def load_errors_def load_conflicts_def
          load_revision_calls_def group_docs_def)
  next
    case False
    then have s: "scan_rows pf h [r] = [(d, decryptDoc_result pf h d)]"
      using Some scan_rows_try by blast
    from decryptDoc_inv [OF inv, of pf d] obtain st1 where
      d: "decryptDoc pf d st = (decryptDoc_result pf h d, st1)"
      and i: "helper_inv h st1" "db st1 = db st" "listener st1 = listener st" "calls st1 = calls st"
      by blast
    show ?thesis
    proof (cases "decryptDoc_result pf h d")
      case (Inl e)
      then show ?thesis
        using Some False d i
        by (simp add: loadAll_row_def loaded_docs_def load_errors_def load_conflicts_def
            load_revision_calls_def s group_docs_def)
    next
      case (Inr doc)
      note p = decryptDoc_result_parsed [OF Inr]
      have g: "group_docs m (loaded_docs pf h [r]) = add_to_table (table_of d) doc m"
        by (simp add: loaded_docs_def s Inr group_docs_def)
      show ?thesis
      proof (cases "has_conflicts d")
        case False
        then show ?thesis
          using Some \<open>\<not> (startsWith (row_id r) (js ''_design/'') \<or> \<not> truthy (raw_d d))\<close> d i Inr p g
          by (simp add: loadAll_row_def loaded_docs_def load_errors_def load_conflicts_def
              load_revision_calls_def s)
      next
        case True
        from quiet i(3) have q: "\<forall>n. listener_throws (listener st1) n = None" by simp
        from buildConflictInfo_inv [OF i(1) q p, of pf "raw_rev d" "conflicts_of d" doc]
        obtain st2 where
          b: "buildConflictInfo pf (raw_id d) (raw_rev d) (conflicts_of d) doc st1 =
               (Inr (conflict_of pf h (db st1) (d, doc)), st2)"
          and j: "helper_inv h st2" "db st2 = db st1" "listener st2 = listener st1"
            "calls st2 = calls st1 @
                (if revision_errors pf h (db st1) (raw_id d) (conflicts_of d) \<noteq> []
                    \<and> has_onError (listener st1)
                 then [OnError (revision_errors pf h (db st1) (raw_id d) (conflicts_of d))] else [])"
          by (auto simp: conflict_of_def)
        show ?thesis
          using Some \<open>\<not> (startsWith (row_id r) (js ''_design/'') \<or> \<not> truthy (raw_d d))\<close>
            d i Inr p g True b j
          by (simp add: loadAll_row_def loaded_docs_def load_errors_def load_conflicts_def
              load_revision_calls_def s)
      qed
    qed
  qed
qed

lemma foldl_loadAll_row_inv:
  assumes "helper_inv h st" and "\<forall>n. listener_throws (listener st) n = None"
  shows "\<exists>st'. foldl (loadAll_row pf) ((m, es, cs), st) rows =
           ((group_docs m (loaded_docs pf h rows), es @ load_errors pf h rows,
             cs @ load_conflicts pf h (db st) rows), st')
         \<and> helper_inv h st' \<and> db st' = db st \<and> listener st' = listener st
         \<and> calls st' = calls st @ load_revision_calls pf h (db st) (has_onError (listener st)) rows"
  using assms
proof (induction rows arbitrary: m es cs st)
  case Nil
  then show ?case
    by (simp add: loaded_docs_def load_errors_def load_conflicts_def load_revision_calls_def
        scan_rows_def group_docs_def)
next
  case (Cons r rs)
  from loadAll_row_inv [OF Cons.prems, of pf m es cs r] obtain st1 where
    s: "loadAll_row pf ((m, es, cs), st) r =
           ((group_docs m (loaded_docs pf h [r]), es @ load_errors pf h [r],
             cs @ load_conflicts pf h (db st) [r]), st1)"
    and i: "helper_inv h st1" "db st1 = db st" "listener st1 = listener st"
      "calls st1 = calls st @ load_revision_calls pf h (db st) (has_onError (listener st)) [r]"
    by blast
  from Cons.prems(2) i(3) have q: "\<forall>n. listener_throws (listener st1) n = None" by simp
  from Cons.IH [OF i(1) q, of "group_docs m (loaded_docs pf h [r])" "es @ load_errors pf h [r]"
      "cs @ load_conflicts pf h (db st) [r]"] obtain st2 where
    f: "foldl (loadAll_row pf)
          ((group_docs m (loaded_docs pf h [r]), es @ load_errors pf h [r],
            cs @ load_conflicts pf h (db st) [r]), st1) rs =
        ((group_docs (group_docs m (loaded_docs pf h [r])) (loaded_docs pf h rs),
          (es @ load_errors pf h [r]) @ load_errors pf h rs,
          (cs @ load_conflicts pf h (db st) [r]) @ load_conflicts pf h (db st1) rs), st2)"
    and j: "helper_inv h st2" "db st2 = db st1" "listener st2 = listener st1"
      "calls st2 = calls st1 @ load_revision_calls pf h (db st1) (has_onError (listener st1)) rs"
    by blast
  have c: "r # rs = [r] @ rs" by simp
  show ?case
    using s f i j
    by (simp add: loaded_docs_append [of pf h "[r]" rs, folded c]
        load_errors_append [of pf h "[r]" rs, folded c]
        load_conflicts_append [of pf h _ "[r]" rs, folded c]
        load_revision_calls_append [of pf h _ _ "[r]" rs, folded c]
        group_docs_append [symmetric])
qed

lemma add_to_table_fst:
  "map fst (add_to_table t d m) = (if t \<in> set (map fst m) then map fst m else map fst m @ [t])"
  by (induction m) (auto simp: rev_image_eqI)

lemma add_to_table_sum:
  "sum_list (map (\<lambda>b. length (snd b)) (add_to_table t d m))
     = Suc (sum_list (map (\<lambda>b. length (snd b)) m))"
  by (induction m) auto

lemma group_docs_props:
  "distinct (map fst m) \<Longrightarrow>
   distinct (map fst (group_docs m docs))
   \<and> set (map fst (group_docs m docs)) = set (map fst m) \<union> set (map (\<lambda>x. table_of (fst x)) docs)
   \<and> sum_list (map (\<lambda>b. length (snd b)) (group_docs m docs))
       = sum_list (map (\<lambda>b. length (snd b)) m) + length docs"
proof (induction docs arbitrary: m)
  case Nil
  then show ?case by (simp add: group_docs_def)
next
  case (Cons x xs)
  have d: "distinct (map fst (add_to_table (table_of (fst x)) (snd x) m))"
    using Cons.prems by (simp add: add_to_table_fst)
  have g: "group_docs m (x # xs) = group_docs (add_to_table (table_of (fst x)) (snd x) m) xs"
    by (simp add: group_docs_def)
  from Cons.IH [OF d] show ?case
    unfolding g by (auto simp: add_to_table_fst add_to_table_sum)
qed

lemma load_batches_props:
  "distinct (map fst (load_batches pf h rows))"
  "length (load_batches pf h rows)
     = card (set (map (\<lambda>x. table_of (fst x)) (loaded_docs pf h rows)))"
  "sum_list (map (\<lambda>b. length (snd b)) (load_batches pf h rows)) = length (loaded_docs pf h rows)"
  "load_batches pf h rows = [] \<longleftrightarrow> loaded_docs pf h rows = []"
proof -
  note p = group_docs_props [of "[]" "loaded_docs pf h rows", simplified,
      folded load_batches_def]
  show 1: "distinct (map fst (load_batches pf h rows))" using p by simp
  have "length (load_batches pf h rows) = length (map fst (load_batches pf h rows))" by simp
  also have "\<dots> = card (set (map fst (load_batches pf h rows)))"
    using 1 by (rule distinct_card [symmetric])
  finally show "length (load_batches pf h rows)
     = card (set (map (\<lambda>x. table_of (fst x)) (loaded_docs pf h rows)))"
    using p by simp
  show 3: "sum_list (map (\<lambda>b. length (snd b)) (load_batches pf h rows))
      = length (loaded_docs pf h rows)"
    using p by simp
  show "load_batches pf h rows = [] \<longleftrightarrow> loaded_docs pf h rows = []"
  proof
    assume "load_batches pf h rows = []"
    with 3 show "loaded_docs pf h rows = []" by simp
  next
    assume "loaded_docs pf h rows = []"
    then show "load_batches pf h rows = []" by (simp add: load_batches_def group_docs_def)
  qed
qed

lemma add_to_table_docs:
  "(\<Union>b\<in>set (add_to_table t d m). set (snd b)) = insert d (\<Union>b\<in>set m. set (snd b))"
proof (induction m)
  case Nil
  show ?case by simp
next
  case (Cons p m)
  obtain a b where p: "p = (a, b)" by (cases p)
  show ?case
  proof (cases "a = t")
    case True
    then show ?thesis by (simp add: p)
  next
    case False
    then show ?thesis by (simp add: p Cons.IH)
  qed
qed

lemma group_docs_docs:
  "(\<Union>b\<in>set (group_docs m docs). set (snd b)) = (\<Union>b\<in>set m. set (snd b)) \<union> snd ` set docs"
proof (induction docs arbitrary: m)
  case Nil
  then show ?case by (simp add: group_docs_def)
next
  case (Cons x xs)
  have g: "group_docs m (x # xs) = group_docs (add_to_table (table_of (fst x)) (snd x) m) xs"
    by (simp add: group_docs_def)
  show ?case unfolding g Cons.IH add_to_table_docs by auto
qed

lemma load_revision_calls_are_errors:
  "c \<in> set (load_revision_calls pf h d b rows) \<Longrightarrow> \<exists>es. c = OnError es"
  by (auto simp: load_revision_calls_def split: if_splits)

lemma loadAll_rows_calls:
  assumes inv: "helper_inv h st" and quiet: "\<forall>n. listener_throws (listener st) n = None"
  shows "fst (loadAll_rows pf rows st) = Inr ()
    \<and> calls (snd (loadAll_rows pf rows st)) =
         calls st
         @ load_revision_calls pf h (db st) (has_onError (listener st)) rows
         @ (if loaded_docs pf h rows = [] then [] else [OnChange (load_batches pf h rows)])
         @ (if load_errors pf h rows \<noteq> [] \<and> has_onError (listener st)
            then [OnError (load_errors pf h rows)] else [])
         @ (if load_conflicts pf h (db st) rows \<noteq> [] \<and> has_onConflict (listener st)
            then [OnConflict (load_conflicts pf h (db st) rows)] else [])"
proof -
  from foldl_loadAll_row_inv [OF inv quiet, of pf "[]" "[]" "[]" rows] obtain st1 where
    f: "foldl (loadAll_row pf) (([], [], []), st) rows =
           ((load_batches pf h rows, load_errors pf h rows, load_conflicts pf h (db st) rows), st1)"
    and i: "listener st1 = listener st"
      "calls st1 = calls st @ load_revision_calls pf h (db st) (has_onError (listener st)) rows"
    by (auto simp: load_batches_def)
  show ?thesis
    using i quiet load_batches_props(4) [of pf h rows]
    by (simp add: loadAll_rows_def f notify_if_def call_listener_def)
qed

lemma loadAll_calls:
  assumes "helper_ok (encryptionHelper st)" and "\<forall>n. listener_throws (listener st) n = None"
    and "db_allDocs (db st) = Inr rows"
  shows
    "calls (snd (loadAll pf st)) =
       calls st
       @ load_revision_calls pf (encryptionHelper st) (db st) (has_onError (listener st)) rows
       @ (if loaded_docs pf (encryptionHelper st) rows = [] then []
          else [OnChange (load_batches pf (encryptionHelper st) rows)])
       @ (if load_errors pf (encryptionHelper st) rows \<noteq> [] \<and> has_onError (listener st)
          then [OnError (load_errors pf (encryptionHelper st) rows)] else [])
       @ (if load_conflicts pf (encryptionHelper st) (db st) rows \<noteq> [] \<and> has_onConflict (listener st)
          then [OnConflict (load_conflicts pf (encryptionHelper st) (db st) rows)] else [])"
proof -
  let ?h = "encryptionHelper st"
  have inv: "helper_inv ?h st" by (rule helper_inv_init [OF assms(1)])
  note c = loadAll_rows_calls [OF inv assms(2), of pf rows]
  have b: "loadAll_body pf st = loadAll_rows pf rows st"
    by (simp add: loadAll_body_def assms(3))
  have "calls (snd (loadAll pf st)) = calls (snd (loadAll_rows pf rows st))"
    using c by (simp add: loadAll_cases b setupSubscription_def)
  then show ?thesis using c by simp
qed

text \<open>
  Claim C4. Let the helper derive its key, let no listener callback throw, and let the store
  answer \<open>allDocs\<close> with \<open>rows\<close>. Then \<open>loadAll\<close> invokes the listener as follows, in
  this order: during the scan, the error callback once for every decryptable document with
  competing revisions of which some could not be recovered, if an error listener is
  registered; then the change callback once, if at least one document was decrypted, with
  the batches of all decrypted documents; then the error callback once, if some document
  failed to decrypt and an error listener is registered; then the conflict callback once, if
  a conflict was found and a conflict listener is registered. The batches have distinct
  tables, there are as many of them as the decrypted documents have tables, their sizes sum
  to the number of decrypted documents, and together they hold exactly the decrypted
  documents: a document that fails to decrypt does not keep the others from being delivered.
\<close>

theorem bulk_load_notifications:
  assumes "helper_ok (encryptionHelper st)" and "\<forall>n. listener_throws (listener st) n = None"
    and "db_allDocs (db st) = Inr rows"
  shows
    "calls (snd (loadAll pf st)) =
       calls st
       @ load_revision_calls pf (encryptionHelper st) (db st) (has_onError (listener st)) rows
       @ (if loaded_docs pf (encryptionHelper st) rows = [] then []
          else [OnChange (load_batches pf (encryptionHelper st) rows)])
       @ (if load_errors pf (encryptionHelper st) rows \<noteq> [] \<and> has_onError (listener st)
          then [OnError (load_errors pf (encryptionHelper st) rows)] else [])
       @ (if load_conflicts pf (encryptionHelper st) (db st) rows \<noteq> [] \<and> has_onConflict (listener st)
          then [OnConflict (load_conflicts pf (encryptionHelper st) (db st) rows)] else [])
     \<and> distinct (map fst (load_batches pf (encryptionHelper st) rows))
     \<and> length (load_batches pf (encryptionHelper st) rows)
         = card (set (map (\<lambda>x. table_of (fst x)) (loaded_docs pf (encryptionHelper st) rows)))
     \<and> sum_list (map (\<lambda>b. length (snd b)) (load_batches pf (encryptionHelper st) rows))
         = length (loaded_docs pf (encryptionHelper st) rows)
     \<and> (\<Union>b\<in>set (load_batches pf (encryptionHelper st) rows). set (snd b))
         = snd ` set (loaded_docs pf (encryptionHelper st) rows)
     \<and> (\<forall>c \<in> set (load_revision_calls pf (encryptionHelper st) (db st)
                      (has_onError (listener st)) rows). \<exists>es. c = OnError es)"
proof -
  let ?h = "encryptionHelper st"
  have d: "(\<Union>b\<in>set (load_batches pf ?h rows). set (snd b)) = snd ` set (loaded_docs pf ?h rows)"
    unfolding load_batches_def group_docs_docs by simp
  show ?thesis
    using loadAll_calls [OF assms, of pf] load_batches_props(1-3) [of pf ?h rows] d
      load_revision_calls_are_errors [of _ pf ?h "db st" "has_onError (listener st)" rows]
    by (simp only:) blast
qed

lemma decrypt_body_single_segment:
  assumes "0x7C \<notin> set data" "match_chunks data \<noteq> []"
  shows "decrypt_body h (Inr key) data = Inl (Err ''TypeError'' (js ''data is not a BufferSource''))"
proof -
  from assms(2) obtain c cs where "match_chunks data = c # cs" by (cases "match_chunks data") auto
  from fromHexString_chunks [OF this] show ?thesis
    by (simp add: decrypt_body_def js_split_no_sep [OF assms(1)])
qed

lemma js_message_buffer:
  "js ''Could not decrypt: '' @ js ''data is not a BufferSource''
     = js ''Could not decrypt: data is not a BufferSource''"
  by (simp add: js_def)

lemma parse_dinner: "parseFullId (js ''expenses_dinner'') = Some (js ''expenses'', js ''dinner'')"
  by (simp add: parseFullId_def js_def)

lemma decryptDoc_dinner:
  "decryptDoc_result toy_platform toy_helper dinner_doc
     = Inl (DecryptionError (js ''Could not decrypt: data is not a BufferSource''))"
proof -
  have 1: "0x7C \<notin> set (js ''invalid-encrypted-data'')" by (simp add: js_def)
  have 2: "match_chunks (js ''invalid-encrypted-data'') \<noteq> []"
    by (simp add: js_def is_line_terminator_def)
  show ?thesis
    by (simp add: decryptDoc_result_def dinner_doc_def parse_dinner decrypt_property_result_def
        decrypt_result_def toy_key decrypt_body_single_segment [OF 1 2] js_message_buffer)
qed

lemma parse_task: "parseFullId (js ''tasks_t1'') = Some (js ''tasks'', js ''t1'')"
  by (simp add: parseFullId_def js_def)

lemma decryptDoc_task:
  "decryptDoc_result toy_platform toy_helper task_doc
     = Inr [(js ''_id'', JStr (js ''t1'')), (js ''_rev'', JStr (js ''1-t''))]"
  by (simp add: decryptDoc_result_def task_doc_def parse_task decrypt_property_result_def
      decrypt_payload toy_platform_def spread_props_def spread_into_def)

lemma not_design_toy:
  "\<not> startsWith (js ''expenses_lunch'') (js ''_design/'')"
  "\<not> startsWith (js ''tasks_t1'') (js ''_design/'')"
  "\<not> startsWith (js ''expenses_dinner'') (js ''_design/'')"
  by (simp_all add: startsWith_def js_def)

lemma payload_truthy: "js (c # cs) \<noteq> []"
  by (simp add: js_def)

lemma scan_mixed:
  "scan_rows toy_platform toy_helper [lunch_row None, dinner_row, task_row]
     = [(lunch_doc None, Inr [(js ''_id'', JStr (js ''lunch'')), (js ''_rev'', JStr (js ''2-a''))]),
        (dinner_doc,
         Inl (DecryptionError (js ''Could not decrypt: data is not a BufferSource''))),
        (task_doc, Inr [(js ''_id'', JStr (js ''t1'')), (js ''_rev'', JStr (js ''1-t''))])]"
proof -
  have r: "row_doc (lunch_row None) = Some (lunch_doc None)" "row_id (lunch_row None) = js ''expenses_lunch''"
    "row_doc dinner_row = Some dinner_doc" "row_id dinner_row = js ''expenses_dinner''"
    "row_doc task_row = Some task_doc" "row_id task_row = js ''tasks_t1''"
    "raw_d dinner_doc = Some (JStr (js ''invalid-encrypted-data''))"
    "raw_d task_doc = Some (JStr (js ''00|6264e7''))"
    by (simp_all add: lunch_row_def dinner_row_def task_row_def dinner_doc_def task_doc_def js_def)
  show ?thesis
    by (simp add: scan_rows_def r not_design_toy lunch_doc_fields payload_truthy
        decryptDoc_lunch decryptDoc_dinner decryptDoc_task)
qed

lemma table_of_toy:
  "table_of (lunch_doc c) = js ''expenses''" "table_of task_doc = js ''tasks''"
  "ident_of (lunch_doc c) = js ''lunch''"
  by (simp_all add: table_of_def ident_of_def lunch_doc_fields parse_lunch task_doc_def parse_task)

lemma tables_distinct: "js ''expenses'' \<noteq> js ''tasks''"
  by (simp add: js_def)

lemma mixed_fields:
  "encryptionHelper mixed_pouch = toy_helper"
  "db mixed_pouch = toy_db [lunch_row None, dinner_row, task_row] []"
  "listener mixed_pouch = full_listener" "calls mixed_pouch = []"
  by (simp_all add: mixed_pouch_def toy_pouch_fields)

lemma mixed_loaded:
  "loaded_docs toy_platform toy_helper [lunch_row None, dinner_row, task_row]
     = [(lunch_doc None, [(js ''_id'', JStr (js ''lunch'')), (js ''_rev'', JStr (js ''2-a''))]),
        (task_doc, [(js ''_id'', JStr (js ''t1'')), (js ''_rev'', JStr (js ''1-t''))])]"
  "load_errors toy_platform toy_helper [lunch_row None, dinner_row, task_row]
     = [decryption_error dinner_doc
          (DecryptionError (js ''Could not decrypt: data is not a BufferSource''))]"
  by (simp_all add: loaded_docs_def load_errors_def scan_mixed)

lemma mixed_batches:
  "load_batches toy_platform toy_helper [lunch_row None, dinner_row, task_row]
     = [(js ''expenses'', [[(js ''_id'', JStr (js ''lunch'')), (js ''_rev'', JStr (js ''2-a''))]]),
        (js ''tasks'', [[(js ''_id'', JStr (js ''t1'')), (js ''_rev'', JStr (js ''1-t''))]])]"
  by (simp add: load_batches_def mixed_loaded group_docs_def table_of_toy tables_distinct)

lemma mixed_conflicts:
  "load_conflicts toy_platform toy_helper d [lunch_row None, dinner_row, task_row] = []"
  "load_revision_calls toy_platform toy_helper d b [lunch_row None, dinner_row, task_row] = []"
  by (simp_all add: load_conflicts_def load_revision_calls_def mixed_loaded has_conflicts_def
      lunch_doc_fields task_doc_def)

text \<open>
  Claim C4, witness: a store with \<open>expenses_lunch\<close> and \<open>tasks_t1\<close>, which decrypt, and
  \<open>expenses_dinner\<close> between them, which does not. The change callback receives two
  batches of one document each, the error callback the one failure.
\<close>

theorem bulk_load_notifications_witness:
  "helper_ok (encryptionHelper mixed_pouch)
   \<and> (\<forall>n. listener_throws (listener mixed_pouch) n = None)
   \<and> db_allDocs (db mixed_pouch) = Inr [lunch_row None, dinner_row, task_row]
   \<and> calls (snd (loadAll toy_platform mixed_pouch))
      = [OnChange
           [(js ''expenses'', [[(js ''_id'', JStr (js ''lunch'')), (js ''_rev'', JStr (js ''2-a''))]]),
            (js ''tasks'', [[(js ''_id'', JStr (js ''t1'')), (js ''_rev'', JStr (js ''1-t''))]])],
         OnError
           [decryption_error dinner_doc
              (DecryptionError (js ''Could not decrypt: data is not a BufferSource''))]]"
proof -
  have 1: "helper_ok (encryptionHelper mixed_pouch)"
    by (simp add: mixed_fields toy_helper_ok)
  have 2: "\<forall>n. listener_throws (listener mixed_pouch) n = None"
    by (simp add: mixed_fields full_listener_def)
  have 3: "db_allDocs (db mixed_pouch) = Inr [lunch_row None, dinner_row, task_row]"
    by (simp add: mixed_fields toy_db_def)
  have 4: "has_onError (listener mixed_pouch)"
    by (simp add: mixed_fields full_listener_def)
  from bulk_load_notifications [OF 1 2 3, of toy_platform] 1 2 3 4
  show ?thesis
    by (simp add: mixed_fields(1,4) mixed_loaded mixed_batches mixed_conflicts)
qed

lemma troubled_fields:
  "encryptionHelper troubled_pouch = toy_helper"
  "db troubled_pouch
     = toy_db [lunch_row (Some [js ''2-b'', js ''2-c'']), dinner_row] [(js ''2-b'', loser_doc)]"
  "listener troubled_pouch = full_listener" "calls troubled_pouch = []"
  by (simp_all add: troubled_pouch_def toy_pouch_fields)

lemma empty_fields:
  "encryptionHelper empty_pouch = toy_helper" "db empty_pouch = toy_db [] []"
  "listener empty_pouch = full_listener" "calls empty_pouch = []"
  by (simp_all add: empty_pouch_def toy_pouch_fields)

lemma toy_loser_results:
  "loser_result toy_platform toy_helper (toy_db rows [(js ''2-b'', loser_doc)]) i (js ''2-b'')
     = Inr [(js ''_id'', JStr (js ''lunch'')), (js ''_rev'', JStr (js ''2-b''))]"
  "loser_result toy_platform toy_helper (toy_db rows [(js ''2-b'', loser_doc)]) i (js ''2-c'')
     = Inl not_found"
  by (simp_all add: loser_result_def toy_db_def decryptDoc_loser revs_distinct)

lemma troubled_revisions:
  "recovered_losers toy_platform toy_helper (toy_db rows [(js ''2-b'', loser_doc)]) i
      [js ''2-b'', js ''2-c'']
     = [[(js ''_id'', JStr (js ''lunch'')), (js ''_rev'', JStr (js ''2-b''))]]"
  "revision_errors toy_platform toy_helper (toy_db rows [(js ''2-b'', loser_doc)]) i
      [js ''2-b'', js ''2-c'']
     = [conflict_error i (js ''2-c'') not_found]"
  by (simp_all add: recovered_losers_def revision_errors_def toy_loser_results)

lemma scan_troubled:
  "scan_rows toy_platform toy_helper [lunch_row (Some [js ''2-b'', js ''2-c'']), dinner_row]
     = [(lunch_doc (Some [js ''2-b'', js ''2-c'']),
         Inr [(js ''_id'', JStr (js ''lunch'')), (js ''_rev'', JStr (js ''2-a''))]),
        (dinner_doc,
         Inl (DecryptionError (js ''Could not decrypt: data is not a BufferSource'')))]"
proof -
  have r: "row_doc (lunch_row c) = Some (lunch_doc c)" "row_id (lunch_row c) = js ''expenses_lunch''"
    "row_doc dinner_row = Some dinner_doc" "row_id dinner_row = js ''expenses_dinner''"
    "raw_d dinner_doc = Some (JStr (js ''invalid-encrypted-data''))" for c
    by (simp_all add: lunch_row_def dinner_row_def dinner_doc_def)
  show ?thesis
    by (simp add: scan_rows_def r not_design_toy lunch_doc_fields payload_truthy
        decryptDoc_lunch decryptDoc_dinner)
qed

lemma troubled_loaded:
  "loaded_docs toy_platform toy_helper [lunch_row (Some [js ''2-b'', js ''2-c'']), dinner_row]
     = [(lunch_doc (Some [js ''2-b'', js ''2-c'']),
         [(js ''_id'', JStr (js ''lunch'')), (js ''_rev'', JStr (js ''2-a''))])]"
  "load_errors toy_platform toy_helper [lunch_row (Some [js ''2-b'', js ''2-c'']), dinner_row]
     = [decryption_error dinner_doc
          (DecryptionError (js ''Could not decrypt: data is not a BufferSource''))]"
  by (simp_all add: loaded_docs_def load_errors_def scan_troubled)

lemma troubled_batches:
  "load_batches toy_platform toy_helper [lunch_row (Some [js ''2-b'', js ''2-c'']), dinner_row]
     = [(js ''expenses'', [[(js ''_id'', JStr (js ''lunch'')), (js ''_rev'', JStr (js ''2-a''))]])]"
  by (simp add: load_batches_def troubled_loaded group_docs_def table_of_toy)

lemma lunch_conflicts:
  "has_conflicts (lunch_doc (Some [js ''2-b'', js ''2-c'']))"
  "conflicts_of (lunch_doc (Some [js ''2-b'', js ''2-c''])) = [js ''2-b'', js ''2-c'']"
  by (simp_all add: has_conflicts_def conflicts_of_def lunch_doc_fields)

lemma troubled_conflicts:
  "load_conflicts toy_platform toy_helper (toy_db rows [(js ''2-b'', loser_doc)])
      [lunch_row (Some [js ''2-b'', js ''2-c'']), dinner_row]
     = [\<lparr>ci_docId = js ''expenses_lunch'', ci_table = js ''expenses'', ci_id = js ''lunch'',
         ci_currentRev = js ''2-a'', ci_conflictRevs = [js ''2-b'', js ''2-c''],
         ci_winner = [(js ''_id'', JStr (js ''lunch'')), (js ''_rev'', JStr (js ''2-a''))],
         ci_losers = [[(js ''_id'', JStr (js ''lunch'')), (js ''_rev'', JStr (js ''2-b''))]]\<rparr>]"
  "load_revision_calls toy_platform toy_helper (toy_db rows [(js ''2-b'', loser_doc)]) True
      [lunch_row (Some [js ''2-b'', js ''2-c'']), dinner_row]
     = [OnError [conflict_error (js ''expenses_lunch'') (js ''2-c'') not_found]]"
  by (simp_all add: load_conflicts_def load_revision_calls_def troubled_loaded lunch_conflicts
      conflict_of_def table_of_toy troubled_revisions lunch_doc_fields)

text \<open>
  Claim C4, counterexample. The store holds \<open>expenses_lunch\<close>, which decrypts and has
  the competing revisions \<open>2-b\<close> and \<open>2-c\<close>, the second of them missing, and
  \<open>expenses_dinner\<close>, which does not decrypt. One document failed to decrypt and an error
  listener is registered, and the error callback is invoked twice: once by conflict
  reconstruction during the scan, once after it. On the empty store the change callback is
  not invoked at all.
\<close>

theorem bulk_load_counterexample:
  "helper_ok (encryptionHelper troubled_pouch)
   \<and> has_onError (listener troubled_pouch)
   \<and> length (load_errors toy_platform toy_helper
               [lunch_row (Some [js ''2-b'', js ''2-c'']), dinner_row]) = 1
   \<and> calls (snd (loadAll toy_platform troubled_pouch))
      = [OnError [conflict_error (js ''expenses_lunch'') (js ''2-c'') not_found],
         OnChange
           [(js ''expenses'', [[(js ''_id'', JStr (js ''lunch'')), (js ''_rev'', JStr (js ''2-a''))]])],
         OnError
           [decryption_error dinner_doc
              (DecryptionError (js ''Could not decrypt: data is not a BufferSource''))],
         OnConflict
           [\<lparr>ci_docId = js ''expenses_lunch'', ci_table = js ''expenses'', ci_id = js ''lunch'',
             ci_currentRev = js ''2-a'', ci_conflictRevs = [js ''2-b'', js ''2-c''],
             ci_winner = [(js ''_id'', JStr (js ''lunch'')), (js ''_rev'', JStr (js ''2-a''))],
             ci_losers = [[(js ''_id'', JStr (js ''lunch'')), (js ''_rev'', JStr (js ''2-b''))]]\<rparr>]]
   \<and> calls (snd (loadAll toy_platform empty_pouch)) = []"
proof -
  have 1: "helper_ok (encryptionHelper troubled_pouch)" "helper_ok (encryptionHelper empty_pouch)"
    by (simp_all add: troubled_fields empty_fields toy_helper_ok)
  have 2: "\<forall>n. listener_throws (listener troubled_pouch) n = None"
    "\<forall>n. listener_throws (listener empty_pouch) n = None"
    by (simp_all add: troubled_fields empty_fields full_listener_def)
  have 3: "db_allDocs (db troubled_pouch)
             = Inr [lunch_row (Some [js ''2-b'', js ''2-c'']), dinner_row]"
    "db_allDocs (db empty_pouch) = Inr []"
    by (simp_all add: troubled_fields empty_fields toy_db_def)
  have 4: "has_onError (listener troubled_pouch)" "has_onConflict (listener troubled_pouch)"
    by (simp_all add: troubled_fields full_listener_def)
  have 5: "calls (snd (loadAll toy_platform empty_pouch)) = []"
    using loadAll_calls [OF 1(2) 2(2) 3(2), of toy_platform]
    by (simp add: empty_fields(4) loaded_docs_def load_errors_def load_conflicts_def
        load_revision_calls_def scan_rows_def)
  have 6: "calls (snd (loadAll toy_platform troubled_pouch))
      = [OnError [conflict_error (js ''expenses_lunch'') (js ''2-c'') not_found],
         OnChange
           [(js ''expenses'', [[(js ''_id'', JStr (js ''lunch'')), (js ''_rev'', JStr (js ''2-a''))]])],
         OnError
           [decryption_error dinner_doc
              (DecryptionError (js ''Could not decrypt: data is not a BufferSource''))],
         OnConflict
           [\<lparr>ci_docId = js ''expenses_lunch'', ci_table = js ''expenses'', ci_id = js ''lunch'',
             ci_currentRev = js ''2-a'', ci_conflictRevs = [js ''2-b'', js ''2-c''],
             ci_winner = [(js ''_id'', JStr (js ''lunch'')), (js ''_rev'', JStr (js ''2-a''))],
             ci_losers = [[(js ''_id'', JStr (js ''lunch'')), (js ''_rev'', JStr (js ''2-b''))]]\<rparr>]]"
    using loadAll_calls [OF 1(1) 2(1) 3(1), of toy_platform] 4
    by (simp add: troubled_fields troubled_loaded troubled_batches troubled_conflicts)
  show ?thesis using 1(1) 4(1) 5 6 by (simp add: troubled_loaded)
qed

subsection \<open>Writing a document\<close>

lemma define_property_fresh:
  "key \<notin> fst ` set ob \<Longrightarrow> define_property key v ob = ob @ [(key, v)]"
  by (induction ob) auto

lemma define_property_keys:
  "map fst (define_property key v ob) = (if key \<in> fst ` set ob then map fst ob else map fst ob @ [key])"
  by (induction ob) (auto simp: rev_image_eqI)

lemma define_property_filter:
  "\<not> P key \<Longrightarrow> filter (\<lambda>entry. P (fst entry)) (define_property key v ob)
     = filter (\<lambda>entry. P (fst entry)) ob"
  by (induction ob) auto

lemma define_property_get:
  "map_of (define_property key v ob) k = (if k = key then Some v else map_of ob k)"
  by (induction ob) auto

lemma underscore_keys:
  "startsWith (js ''_id'') (js ''_'')" "startsWith (js ''_rev'') (js ''_'')"
  "startsWith (js ''__proto__'') (js ''_'')" "\<not> startsWith (js ''d'') (js ''_'')"
  "js ''d'' \<noteq> js ''__proto__''" "js ''_rev'' \<noteq> js ''__proto__''" "js ''_id'' \<noteq> js ''__proto__''"
  "js ''_id'' \<noteq> js ''_rev''" "js ''d'' \<noteq> js ''_id''" "js ''d'' \<noteq> js ''_rev''"
  by (simp_all add: startsWith_def js_def)

lemma encryptDoc_loop:
  assumes "distinct (map fst doc)"
    and "\<forall>k \<in> fst ` set doc. k \<notin> fst ` set data
           \<and> (k \<noteq> js ''_id'' \<longrightarrow> k \<notin> fst ` set rootFields)"
  shows "foldl encryptDoc_step (data, rootFields) doc
           = (data @ user_fields doc, rootFields @ passed_fields doc)"
  using assms
proof (induction doc arbitrary: data rootFields)
  case Nil
  then show ?case by (simp add: user_fields_def passed_fields_def)
next
  case (Cons entry doc)
  obtain key v where e: "entry = (key, v)" by (cases entry)
  have fresh: "key \<notin> fst ` set data" "key \<noteq> js ''_id'' \<Longrightarrow> key \<notin> fst ` set rootFields"
    "key \<notin> fst ` set doc"
    using Cons.prems by (auto simp: e)
  have d: "distinct (map fst doc)" using Cons.prems by simp
  have rest: "\<forall>k \<in> fst ` set doc. k \<notin> fst ` set data
           \<and> (k \<noteq> js ''_id'' \<longrightarrow> k \<notin> fst ` set rootFields)"
    using Cons.prems by simp
  consider (skip) "key = js ''_id'' \<or> key = js ''_rev''"
    | (proto) "key = js ''__proto__''"
    | (root) "startsWith key (js ''_'')" "key \<noteq> js ''_id''" "key \<noteq> js ''_rev''"
        "key \<noteq> js ''__proto__''"
    | (data) "\<not> startsWith key (js ''_'')"
    by blast
  then show ?case
  proof cases
    case skip
    then have "encryptDoc_step (data, rootFields) entry = (data, rootFields)"
      by (simp add: encryptDoc_step_def e)
    with Cons.IH [OF d rest] skip show ?thesis
      by (auto simp: user_fields_def passed_fields_def e underscore_keys)
  next
    case proto
    then have "encryptDoc_step (data, rootFields) entry = (data, rootFields)"
      by (simp add: encryptDoc_step_def e underscore_keys assign_property_def)
    with Cons.IH [OF d rest] proto show ?thesis
      by (simp add: user_fields_def passed_fields_def e underscore_keys)
  next
    case root
    then have s: "encryptDoc_step (data, rootFields) entry = (data, rootFields @ [(key, v)])"
      by (simp add: encryptDoc_step_def e assign_property_def define_property_fresh fresh)
    have "\<forall>k \<in> fst ` set doc. k \<notin> fst ` set data
           \<and> (k \<noteq> js ''_id'' \<longrightarrow> k \<notin> fst ` set (rootFields @ [(key, v)]))"
      using rest fresh(3) by auto
    from Cons.IH [OF d this] s root show ?thesis
      by (simp add: user_fields_def passed_fields_def e)
  next
    case data
    then have n: "key \<noteq> js ''_id''" "key \<noteq> js ''_rev''" "key \<noteq> js ''__proto__''"
      using underscore_keys by auto
    then have s: "encryptDoc_step (data, rootFields) entry = (data @ [(key, v)], rootFields)"
      using data by (simp add: encryptDoc_step_def e assign_property_def define_property_fresh fresh)
    have "\<forall>k \<in> fst ` set doc. k \<notin> fst ` set (data @ [(key, v)])
           \<and> (k \<noteq> js ''_id'' \<longrightarrow> k \<notin> fst ` set rootFields)"
      using rest fresh(3) by auto
    from Cons.IH [OF d this] s data show ?thesis
      by (simp add: user_fields_def passed_fields_def e)
  qed
qed

lemma passed_fields_keys:
  "k \<in> fst ` set (passed_fields doc) \<Longrightarrow>
     startsWith k (js ''_'') \<and> k \<noteq> js ''_id'' \<and> k \<noteq> js ''_rev'' \<and> k \<noteq> js ''__proto__''"
  by (auto simp: passed_fields_def)

lemma encryptDoc_fields:
  assumes "distinct (map fst doc)"
    and "encrypt (encryptionHelper st) (rng_pos st) (JSON_stringify pf (user_fields doc))
           = (Inr c, h', pos')"
  shows "encryptDoc pf doc fullId st
           = (Inr ((js ''_id'', JStr fullId) # passed_fields doc @ [(js ''d'', JStr c)]),
              st\<lparr>encryptionHelper := h', rng_pos := pos'\<rparr>)"
proof -
  have l: "foldl encryptDoc_step ([], [(js ''_id'', JStr fullId)]) doc
             = (user_fields doc, (js ''_id'', JStr fullId) # passed_fields doc)"
    using encryptDoc_loop [OF assms(1), of "[]" "[(js ''_id'', JStr fullId)]"] by simp
  have "js ''d'' \<notin> fst ` set ((js ''_id'', JStr fullId) # passed_fields doc)"
    using passed_fields_keys [of "js ''d''" doc] underscore_keys by auto
  then have "assign_property (js ''d'') (JStr c) ((js ''_id'', JStr fullId) # passed_fields doc)
               = ((js ''_id'', JStr fullId) # passed_fields doc) @ [(js ''d'', JStr c)]"
    unfolding assign_property_def using underscore_keys(5) define_property_fresh by metis
  then show ?thesis
    by (simp add: encryptDoc_def l assms(2))
qed

lemma define_property_distinct:
  "distinct (map fst ob) \<Longrightarrow> distinct (map fst (define_property key v ob))"
  by (simp add: define_property_keys)

lemma assign_id_fields:
  "user_fields (assign_property (js ''_id'') v doc) = user_fields doc"
  "passed_fields (assign_property (js ''_id'') v doc) = passed_fields doc"
  "distinct (map fst doc) \<Longrightarrow> distinct (map fst (assign_property (js ''_id'') v doc))"
  "obj_get (assign_property (js ''_id'') v doc) (js ''_id'') = Some v"
  "obj_get (assign_property (js ''_id'') v doc) (js ''_rev'') = obj_get doc (js ''_rev'')"
proof -
  have a: "assign_property (js ''_id'') v doc = define_property (js ''_id'') v doc"
    by (simp add: assign_property_def underscore_keys)
  show "user_fields (assign_property (js ''_id'') v doc) = user_fields doc"
    unfolding a user_fields_def
    by (rule define_property_filter [where P = "\<lambda>k. \<not> startsWith k (js ''_'')"])
      (simp add: underscore_keys)
  show "passed_fields (assign_property (js ''_id'') v doc) = passed_fields doc"
    unfolding a passed_fields_def
    by (rule define_property_filter
        [where P = "\<lambda>k. startsWith k (js ''_'') \<and> k \<noteq> js ''_id'' \<and> k \<noteq> js ''_rev''
                         \<and> k \<noteq> js ''__proto__''"]) simp
  show "distinct (map fst doc) \<Longrightarrow> distinct (map fst (assign_property (js ''_id'') v doc))"
    unfolding a by (rule define_property_distinct)
  show "obj_get (assign_property (js ''_id'') v doc) (js ''_id'') = Some v"
    unfolding a by (simp add: obj_get_def define_property_get)
  show "obj_get (assign_property (js ''_id'') v doc) (js ''_rev'') = obj_get doc (js ''_rev'')"
    unfolding a using underscore_keys(8) by (simp add: obj_get_def define_property_get)
qed

lemma assign_rev_record:
  "assign_property (js ''_rev'') v ((js ''_id'', i) # passed_fields doc @ [(js ''d'', c)])
     = (js ''_id'', i) # passed_fields doc @ [(js ''d'', c), (js ''_rev'', v)]"
proof -
  have "js ''_rev'' \<notin> fst ` set ((js ''_id'', i) # passed_fields doc @ [(js ''d'', c)])"
    using passed_fields_keys [of "js ''_rev''" doc] underscore_keys by auto
  from define_property_fresh [OF this] show ?thesis
    by (simp add: assign_property_def underscore_keys)
qed

text \<open>What \<open>put\<close> hands to the store, when encryption succeeds.\<close>

lemma put_writes:
  assumes "distinct (map fst doc)"
    and "encrypt (encryptionHelper st) (rng_pos st) (JSON_stringify pf (user_fields doc))
           = (Inr c, h', pos')"
  shows "store_writes (snd (put pf table doc st))
           = store_writes st @ [DbPut (stored_record pf table doc st c)]"
proof (cases "truthy (obj_get doc (js ''_id''))")
  case True
  note e = encryptDoc_fields [OF assms, of "table @ js ''_'' @ template_string pf (obj_get doc (js ''_id''))"]
  show ?thesis
    using True
    by (simp add: put_def e Let_def stored_record_def put_ident_def assign_rev_record
        split: sum.split)
next
  case False
  let ?v = "JStr (randomUUID pf (uuid_count st))"
  let ?doc = "assign_property (js ''_id'') ?v doc"
  let ?st = "st\<lparr>uuid_count := Suc (uuid_count st)\<rparr>"
  have enc: "encrypt (encryptionHelper ?st) (rng_pos ?st) (JSON_stringify pf (user_fields ?doc))
           = (Inr c, h', pos')"
    using assms(2) by (simp add: assign_id_fields)
  note e = encryptDoc_fields [OF assign_id_fields(3) [OF assms(1)] enc,
      of "table @ js ''_'' @ randomUUID pf (uuid_count st)"]
  show ?thesis
    using False
    by (simp add: put_def e Let_def stored_record_def put_ident_def assign_rev_record
        assign_id_fields template_string_def split: sum.split)
qed

lemma stored_record_get:
  "obj_get (stored_record pf table doc st c) (js ''_id'')
     = Some (JStr (table @ js ''_'' @ put_ident pf doc st))"
  "obj_get (stored_record pf table doc st c) (js ''d'') = Some (JStr c)"
  "\<not> startsWith k (js ''_'') \<Longrightarrow> k \<noteq> js ''d'' \<Longrightarrow>
     obj_get (stored_record pf table doc st c) k = None"
proof -
  show "obj_get (stored_record pf table doc st c) (js ''_id'')
     = Some (JStr (table @ js ''_'' @ put_ident pf doc st))"
    by (simp add: stored_record_def obj_get_def)
  have "map_of (passed_fields doc) (js ''d'') = None"
    using passed_fields_keys [of "js ''d''" doc] underscore_keys
    by (auto simp: map_of_eq_None_iff)
  then show "obj_get (stored_record pf table doc st c) (js ''d'') = Some (JStr c)"
    using underscore_keys by (simp add: stored_record_def obj_get_def map_add_def)
  assume k: "\<not> startsWith k (js ''_'')" "k \<noteq> js ''d''"
  then have "map_of (passed_fields doc) k = None"
    using passed_fields_keys [of k doc] by (auto simp: map_of_eq_None_iff)
  then show "obj_get (stored_record pf table doc st c) k = None"
    using k underscore_keys by (auto simp: stored_record_def obj_get_def map_add_def)
qed

lemma map_of_filter_keys:
  "P k \<Longrightarrow> map_of (filter (\<lambda>entry. P (fst entry)) ob) k = map_of ob k"
  by (induction ob) auto

lemma stored_record_passed:
  assumes "startsWith k (js ''_'')" "k \<noteq> js ''_id''" "k \<noteq> js ''_rev''" "k \<noteq> js ''__proto__''"
  shows "obj_get (stored_record pf table doc st c) k = obj_get doc k"
proof -
  have p: "map_of (passed_fields doc) k = map_of doc k"
    unfolding passed_fields_def
    using map_of_filter_keys [where P = "\<lambda>k. startsWith k (js ''_'') \<and> k \<noteq> js ''_id''
              \<and> k \<noteq> js ''_rev'' \<and> k \<noteq> js ''__proto__''" and k = k and ob = doc] assms
    by simp
  have "k \<noteq> js ''d''" using assms(1) underscore_keys by auto
  then show ?thesis
    using assms p
    by (cases "map_of doc k") (auto simp: stored_record_def obj_get_def map_add_def)
qed

lemma user_fields_get:
  "\<not> startsWith k (js ''_'') \<Longrightarrow> obj_get (user_fields doc) k = obj_get doc k"
  unfolding user_fields_def obj_get_def
  using map_of_filter_keys [where P = "\<lambda>k. \<not> startsWith k (js ''_'')" and k = k and ob = doc]
  by simp

text \<open>
  Claim C2, as amended. Let \<open>doc\<close> be a document (its keys distinct), written with
  \<open>put pf table doc\<close> by a store whose helper derives its key on a platform whose cipher is
  correct for that key, and let the JSON text of its user fields be a well-formed string that
  does not begin with U+FEFF. Then \<open>put\<close> hands exactly one record to the store. Its
  \<open>_id\<close> is the full identifier \<open>table_id\<close>; its field \<open>d\<close> is a ciphertext that
  decrypts to the JSON text of the fields of \<open>doc\<close> whose names do not start with an
  underscore; no such field other than one named \<open>d\<close> is at its top level; and every
  field of \<open>doc\<close> whose name starts with an underscore, other than \<open>_id\<close>, \<open>_rev\<close> and
  \<open>__proto__\<close>, is at its top level with the value it has in \<open>doc\<close>.
\<close>

theorem put_field_partitioning:
  assumes "distinct (map fst doc)"
    and "helper_ok (encryptionHelper st)" and "deriveKey (encryptionHelper st) = Inr key"
    and "aead_correct (crypto (encryptionHelper st)) key"
    and "isWellFormed (JSON_stringify pf (user_fields doc))"
    and "take 1 (JSON_stringify pf (user_fields doc)) \<noteq> [0xFEFF]"
  shows "\<exists>c. store_writes (snd (put pf table doc st))
                = store_writes st @ [DbPut (stored_record pf table doc st c)]
          \<and> obj_get (stored_record pf table doc st c) (js ''_id'')
                = Some (JStr (table @ js ''_'' @ put_ident pf doc st))
          \<and> obj_get (stored_record pf table doc st c) (js ''d'') = Some (JStr c)
          \<and> decrypt (cached (encryptionHelper st)) c
                = (Inr (JSON_stringify pf (user_fields doc)), cached (encryptionHelper st))
          \<and> (\<forall>k. \<not> startsWith k (js ''_'') \<longrightarrow> obj_get (user_fields doc) k = obj_get doc k)
          \<and> (\<forall>k. \<not> startsWith k (js ''_'') \<and> k \<noteq> js ''d''
                 \<longrightarrow> obj_get (stored_record pf table doc st c) k = None)
          \<and> (\<forall>k. startsWith k (js ''_'') \<and> k \<noteq> js ''_id'' \<and> k \<noteq> js ''_rev''
                   \<and> k \<noteq> js ''__proto__''
                 \<longrightarrow> obj_get (stored_record pf table doc st c) k = obj_get doc k)"
proof -
  let ?h = "encryptionHelper st" and ?s = "JSON_stringify pf (user_fields doc)"
  have "\<forall>t. ?s \<noteq> 0xFEFF # t" using assms(6) by auto
  then have rt: "TextDecoder_decode (TextEncoder_encode ?s) = ?s"
    by (rule TextDecoder_TextEncoder [OF assms(5)])
  from round_trip_general [OF assms(2-4), of "rng_pos st" ?s] obtain c where
    c: "encrypt ?h (rng_pos st) ?s = (Inr c, cached ?h, rng_pos st + 12)"
      "decrypt (cached ?h) c = (Inr ?s, cached ?h)"
    using rt by auto
  have "store_writes (snd (put pf table doc st))
          = store_writes st @ [DbPut (stored_record pf table doc st c)]"
    by (rule put_writes [OF assms(1) c(1)])
  then show ?thesis
    using c(2) stored_record_get [where pf = pf and table = table and doc = doc and st = st and c = c]
      stored_record_passed [where pf = pf and table = table and doc = doc and st = st and c = c]
      user_fields_get [where doc = doc]
    by blast
qed

lemma toy_pouch_put_fields:
  "rng_pos (toy_pouch d l) = 0" "store_writes (toy_pouch d l) = []"
  "uuid_count (toy_pouch d l) = 0"
  by (simp_all add: toy_pouch_def new_EncryptedPouch_def)

lemma expense_user_fields:
  "user_fields expense_input = [(js ''amount'', JNum 15), (js ''secret'', JStr (js ''y''))]"
  "passed_fields expense_input = []"
  "distinct (map fst expense_input)"
  "obj_get expense_input (js ''_id'') = Some (JStr (js ''x''))"
  "obj_get expense_input (js ''_rev'') = None"
  "obj_get expense_input (js ''amount'') = Some (JNum 15)"
  "obj_get expense_input (js ''secret'') = Some (JStr (js ''y''))"
  by (simp_all add: user_fields_def passed_fields_def expense_input_def startsWith_def obj_get_def
      js_def)

lemma expense_text:
  "JSON_stringify toy_platform [(js ''amount'', JNum 15), (js ''secret'', JStr (js ''y''))]
     = js ''{amount:15,secret:y}''"
  by (simp add: toy_platform_def)

lemma expense_text_ok:
  "isWellFormed (js ''{amount:15,secret:y}'')" "take 1 (js ''{amount:15,secret:y}'') \<noteq> [0xFEFF]"
  by (simp_all add: js_def is_lead_surrogate_def is_trail_surrogate_def)

lemma expense_keys:
  "\<not> startsWith (js ''amount'') (js ''_'')" "\<not> startsWith (js ''secret'') (js ''_'')"
  "js ''amount'' \<noteq> js ''d''" "js ''secret'' \<noteq> js ''d''"
  by (simp_all add: startsWith_def js_def)

lemma js_expenses_x: "js ''expenses'' @ js ''_'' @ js ''x'' = js ''expenses_x''" "js ''x'' \<noteq> []"
  by (simp_all add: js_def)

lemma expense_record:
  "stored_record toy_platform (js ''expenses'') expense_input (toy_pouch d l) c
     = [(js ''_id'', JStr (js ''expenses_x'')), (js ''d'', JStr c)]"
  by (simp add: stored_record_def expense_user_fields put_ident_def template_string_def
      js_expenses_x)

text \<open>
  Claim C2, witness: \<open>{_id: x, amount: 15, secret: y}\<close> written to the table
  \<open>expenses\<close>. The stored record has the fields \<open>_id\<close> and \<open>d\<close> only, and \<open>d\<close> decrypts
  to the JSON text of \<open>amount\<close> and \<open>secret\<close>.
\<close>

theorem put_field_partitioning_witness:
  "distinct (map fst expense_input)
   \<and> helper_ok (encryptionHelper (toy_pouch (toy_db [] []) full_listener))
   \<and> deriveKey (encryptionHelper (toy_pouch (toy_db [] []) full_listener)) = Inr [0x70, 0x77]
   \<and> aead_correct (crypto (encryptionHelper (toy_pouch (toy_db [] []) full_listener))) [0x70, 0x77]
   \<and> isWellFormed (JSON_stringify toy_platform (user_fields expense_input))
   \<and> take 1 (JSON_stringify toy_platform (user_fields expense_input)) \<noteq> [0xFEFF]
   \<and> (\<exists>c. store_writes (snd (put toy_platform (js ''expenses'') expense_input
                                  (toy_pouch (toy_db [] []) full_listener)))
              = [DbPut [(js ''_id'', JStr (js ''expenses_x'')), (js ''d'', JStr c)]]
          \<and> decrypt (cached toy_helper) c = (Inr (js ''{amount:15,secret:y}''), cached toy_helper)
          \<and> obj_get [(js ''_id'', JStr (js ''expenses_x'')), (js ''d'', JStr c)] (js ''amount'') = None
          \<and> obj_get [(js ''_id'', JStr (js ''expenses_x'')), (js ''d'', JStr c)] (js ''secret'') = None)"
proof -
  let ?st = "toy_pouch (toy_db [] []) full_listener"
  have 1: "distinct (map fst expense_input)" by (rule expense_user_fields)
  have 2: "helper_ok (encryptionHelper ?st)" by (simp add: toy_pouch_fields toy_helper_ok)
  have 3: "deriveKey (encryptionHelper ?st) = Inr [0x70, 0x77]"
    by (simp add: toy_pouch_fields toy_key)
  have 4: "aead_correct (crypto (encryptionHelper ?st)) [0x70, 0x77]"
    by (simp add: toy_pouch_fields toy_crypto_fields toy_aead_correct)
  have 5: "isWellFormed (JSON_stringify toy_platform (user_fields expense_input))"
    by (simp only: expense_user_fields expense_text expense_text_ok)
  have 6: "take 1 (JSON_stringify toy_platform (user_fields expense_input)) \<noteq> [0xFEFF]"
    by (simp only: expense_user_fields expense_text expense_text_ok not_False_eq_True)
  from put_field_partitioning [OF 1 2 3 4 5 6, of "js ''expenses''"] obtain c where
    c: "store_writes (snd (put toy_platform (js ''expenses'') expense_input ?st))
          = store_writes ?st @ [DbPut (stored_record toy_platform (js ''expenses'') expense_input ?st c)]"
       "decrypt (cached (encryptionHelper ?st)) c
          = (Inr (JSON_stringify toy_platform (user_fields expense_input)), cached (encryptionHelper ?st))"
       "\<forall>k. \<not> startsWith k (js ''_'') \<and> k \<noteq> js ''d''
            \<longrightarrow> obj_get (stored_record toy_platform (js ''expenses'') expense_input ?st c) k = None"
    by blast
  have a: "store_writes (snd (put toy_platform (js ''expenses'') expense_input ?st))
            = [DbPut [(js ''_id'', JStr (js ''expenses_x'')), (js ''d'', JStr c)]]"
    using c(1) by (simp add: expense_record toy_pouch_put_fields)
  have b: "decrypt (cached toy_helper) c = (Inr (js ''{amount:15,secret:y}''), cached toy_helper)"
    using c(2) by (simp add: toy_pouch_fields expense_user_fields expense_text)
  have "obj_get [(js ''_id'', JStr (js ''expenses_x'')), (js ''d'', JStr c)] (js ''amount'') = None"
    "obj_get [(js ''_id'', JStr (js ''expenses_x'')), (js ''d'', JStr c)] (js ''secret'') = None"
    using c(3) [rule_format, of "js ''amount''"] c(3) [rule_format, of "js ''secret''"] expense_keys
    unfolding expense_record by blast+
  with a b 1 2 3 4 5 6 show ?thesis by blast
qed

lemma payload_named_fields:
  "user_fields payload_named_input = [(js ''d'', JStr (js ''z''))]"
  "passed_fields payload_named_input = []"
  "distinct (map fst payload_named_input)"
  "obj_get payload_named_input (js ''_id'') = Some (JStr (js ''x''))"
  "obj_get payload_named_input (js ''_rev'') = None"
  "obj_get payload_named_input (js ''d'') = Some (JStr (js ''z''))"
  by (simp_all add: user_fields_def passed_fields_def payload_named_input_def startsWith_def
      obj_get_def js_def)

lemma payload_named_text: "JSON_stringify toy_platform [(js ''d'', JStr (js ''z''))] = js ''{d:z}''"
  by (simp add: toy_platform_def js_def)

lemma enc_payload_named: "TextEncoder_encode (js ''{d:z}'') = [0x7B, 0x64, 0x3A, 0x7A, 0x7D]"
  by (simp add: TextEncoder_encode_def utf8_encode_cp_def is_lead_surrogate_def
      is_trail_surrogate_def js_def)

lemma hex_ct_payload_named:
  "toHexString [0xA4, 0x8D, 0x63, 0xA3, 0xA6, 0x29] = js ''a48d63a3a629''"
  by (simp add: toHexString_concat hex2_def hex_digit_char_def js_def)

lemma js_ct_payload_named:
  "js ''000102030405060708090a0b|a48d63a3a629''
     = js ''000102030405060708090a0b'' @ js ''|'' @ js ''a48d63a3a629''"
  by (simp add: js_def)

lemma toy_encrypt_payload_named:
  "encrypt toy_helper 0 (js ''{d:z}'')
     = (Inr (js ''000102030405060708090a0b|a48d63a3a629''), cached toy_helper, 12)"
proof -
  have "subtle_encrypt (crypto toy_helper) (fst (getRandomValues (crypto toy_helper) 0 12))
      [0x70, 0x77] (TextEncoder_encode (js ''{d:z}'')) = Inr [0xA4, 0x8D, 0x63, 0xA3, 0xA6, 0x29]"
    by (simp add: toy_crypto_fields toy_iv toy_encrypt toy_pad_value enc_payload_named)
  from encrypt_ok [OF toy_helper_ok toy_key this] show ?thesis
    by (simp only: toy_crypto_fields toy_iv hex_iv hex_ct_payload_named js_ct_payload_named add_0)
qed

text \<open>
  Claim C2, counterexample: \<open>{_id: x, d: z}\<close> written to the table \<open>expenses\<close>. The
  name of the field \<open>d\<close> does not start with an underscore, and the stored record has a
  field \<open>d\<close> at its top level: the payload.
\<close>

theorem put_payload_name_counterexample:
  "obj_get payload_named_input (js ''d'') = Some (JStr (js ''z''))
   \<and> \<not> startsWith (js ''d'') (js ''_'')
   \<and> store_writes (snd (put toy_platform (js ''expenses'') payload_named_input
                          (toy_pouch (toy_db [] []) full_listener)))
      = [DbPut [(js ''_id'', JStr (js ''expenses_x'')),
                (js ''d'', JStr (js ''000102030405060708090a0b|a48d63a3a629''))]]
   \<and> obj_get [(js ''_id'', JStr (js ''expenses_x'')),
               (js ''d'', JStr (js ''000102030405060708090a0b|a48d63a3a629''))] (js ''d'')
      \<noteq> None"
proof -
  let ?st = "toy_pouch (toy_db [] []) full_listener"
  have e: "encrypt (encryptionHelper ?st) (rng_pos ?st)
             (JSON_stringify toy_platform (user_fields payload_named_input))
           = (Inr (js ''000102030405060708090a0b|a48d63a3a629''), cached toy_helper, 12)"
    by (simp only: toy_pouch_fields toy_pouch_put_fields payload_named_fields payload_named_text
        toy_encrypt_payload_named)
  have r: "stored_record toy_platform (js ''expenses'') payload_named_input ?st c
     = [(js ''_id'', JStr (js ''expenses_x'')), (js ''d'', JStr c)]" for c
    by (simp add: stored_record_def payload_named_fields put_ident_def template_string_def
        js_expenses_x)
  have "store_writes (snd (put toy_platform (js ''expenses'') payload_named_input ?st))
      = [DbPut [(js ''_id'', JStr (js ''expenses_x'')),
                (js ''d'', JStr (js ''000102030405060708090a0b|a48d63a3a629''))]]"
    using put_writes [OF payload_named_fields(3) e, of "js ''expenses''"]
    by (simp add: r toy_pouch_put_fields)
  moreover have "obj_get [(js ''_id'', JStr (js ''expenses_x'')),
               (js ''d'', JStr (js ''000102030405060708090a0b|a48d63a3a629''))] (js ''d'')
      \<noteq> None"
    by (simp add: obj_get_def)
  ultimately show ?thesis
    using payload_named_fields(6) underscore_keys(4) by blast
qed

subsection \<open>The processing chain\<close>

lemma run_append:
  "run pf (xs @ ys) s = (case run pf xs s of None \<Rightarrow> None | Some s' \<Rightarrow> run pf ys s')"
  by (induction xs arbitrary: s) (auto split: option.splits)

lemma arrivals_append: "arrivals (xs @ ys) = arrivals xs @ arrivals ys"
  by (induction xs rule: arrivals.induct) auto

lemma serial_Suc: "serial (Suc n) = serial n @ [Started n, Finished n]"
  by (simp add: serial_def)

lemma serial_0: "serial 0 = []"
  by (simp add: serial_def)

lemma work_append: "work (xs @ ys) = work xs @ work ys"
  by (simp add: work_def)

lemma work_single:
  "work [Emitted i] = []" "work [Started i] = [Started i]" "work [Finished i] = [Finished i]"
  by (simp_all add: work_def)

lemma set_link_fields:
  "processingChain (set_link i l s) = (processingChain s)[i := (fst (processingChain s ! i), l)]"
  "pouch_of (set_link i l s) = pouch_of s" "trace (set_link i l s) = trace s"
  by (simp_all add: set_link_def)

lemma map_fst_update: "map fst (xs[i := (fst (xs ! i), l)]) = map fst xs"
proof (cases "i < length xs")
  case True
  then have "fst (xs ! i) = map fst xs ! i" by simp
  then show ?thesis by (simp add: map_update del: nth_map)
next
  case False
  then have "length xs \<le> i" by simp
  then show ?thesis by (simp add: list_update_beyond)
qed

lemma process_cases:
  "handleChange pf ch st = (Inr u, st') \<Longrightarrow> process pf ch st = st'"
  "handleChange pf ch st = (Inl e, st') \<Longrightarrow>
     process pf ch st
       = st'\<lparr>console := console st' @ [ConsoleError ''[EncryptedPouch] handleChange error:'' e]\<rparr>"
  by (simp_all add: process_def)

lemma chain_inv_initial: "chain_inv pf st0 (initial_chain st0) 0"
  by (simp add: chain_inv_def initial_chain_def work_def serial_0)

text \<open>Which link can move: only link \<open>k\<close>.\<close>

lemma inv_active:
  assumes "chain_inv pf st0 s k" "i < length (processingChain s)"
    and "snd (processingChain s ! i) \<noteq> Waiting" "snd (processingChain s ! i) \<noteq> Settled"
  shows "i = k"
proof (rule ccontr)
  assume "i \<noteq> k"
  then consider "i < k" | "k < i" by linarith
  then show False using assms by cases (auto simp: chain_inv_def)
qed

lemma inv_startable:
  assumes "chain_inv pf st0 s k" "i < length (processingChain s)"
    and "snd (processingChain s ! i) = Waiting" "predecessor_fulfilled (processingChain s) i"
  shows "i = k"
proof (rule ccontr)
  assume n: "i \<noteq> k"
  then consider "i < k" | "k < i" by linarith
  then show False
  proof cases
    case 1
    with assms show False by (auto simp: chain_inv_def)
  next
    case 2
    then have p: "snd (processingChain s ! (i - 1)) = Settled" "k \<le> i - 1" "i - 1 < length (processingChain s)"
      using assms(2,4) by (auto simp: predecessor_fulfilled_def)
    show False
    proof (cases "k = i - 1")
      case True
      with p assms(1) show False by (auto simp: chain_inv_def split: if_splits)
    next
      case False
      with p have "k < i - 1" by simp
      with p assms(1) show False by (auto simp: chain_inv_def)
    qed
  qed
qed

text \<open>Link \<open>k\<close> changes its state without being fulfilled.\<close>

lemma inv_stay:
  assumes inv: "chain_inv pf st0 s k" and k: "k < length (processingChain s)"
    and chain: "processingChain s' = (processingChain s)[k := (fst (processingChain s ! k), l)]"
    and l: "l \<noteq> Settled"
    and tr: "work (trace s') = serial k @ events_of k l"
    and eff: "effect_of pf (fst (processingChain s ! k)) l
               (foldl (\<lambda>st ch. process pf ch st) st0 (map fst (take k (processingChain s))))
               (pouch_of s')"
  shows "chain_inv pf st0 s' k"
  using assms by (simp add: chain_inv_def nth_list_update)

text \<open>Link \<open>k\<close> is fulfilled.\<close>

lemma inv_advance:
  assumes inv: "chain_inv pf st0 s k" and k: "k < length (processingChain s)"
    and chain: "processingChain s' = (processingChain s)[k := (fst (processingChain s ! k), Settled)]"
    and tr: "work (trace s') = serial (Suc k)"
    and eff: "pouch_of s' = process pf (fst (processingChain s ! k))
               (foldl (\<lambda>st ch. process pf ch st) st0 (map fst (take k (processingChain s))))"
  shows "chain_inv pf st0 s' (Suc k)"
proof -
  let ?c = "processingChain s" and ?c' = "processingChain s'"
  have len: "length ?c' = length ?c" by (simp add: chain)
  have t: "map fst (take (Suc k) ?c') = map fst (take k ?c) @ [fst (?c ! k)]"
    using k by (simp add: chain take_Suc_conv_app_nth)
  have 1: "\<forall>i < Suc k. snd (?c' ! i) = Settled"
    using inv k by (auto simp: chain chain_inv_def nth_list_update)
  have 2: "\<forall>i. Suc k < i \<and> i < length ?c' \<longrightarrow> snd (?c' ! i) = Waiting"
    using inv k by (auto simp: chain chain_inv_def nth_list_update)
  show ?thesis
  proof (cases "Suc k < length ?c")
    case True
    then have w: "snd (?c' ! Suc k) = Waiting"
      using inv by (auto simp: chain chain_inv_def)
    show ?thesis
      using True 1 2 w tr eff t by (simp add: chain_inv_def len)
  next
    case False
    then have "take (Suc k) ?c' = ?c'" using k len by simp
    with t have "map fst ?c' = map fst (take k ?c) @ [fst (?c ! k)]" by simp
    then show ?thesis
      using False 1 2 tr eff k by (simp add: chain_inv_def len)
  qed
qed

lemma step_inv:
  assumes inv: "chain_inv pf st0 s k" and step: "chain_step pf a s = Some s'"
  shows "\<exists>k'. chain_inv pf st0 s' k'"
proof (cases a)
  case (Arrive ch)
  let ?c = "processingChain s"
  from step Arrive have s': "processingChain s' = ?c @ [(ch, Waiting)]"
    "trace s' = trace s @ [Emitted (length ?c)]" "pouch_of s' = pouch_of s"
    by (auto simp: chain_step_def)
  have "chain_inv pf st0 s' k"
  proof (cases "k < length ?c")
    case True
    with inv show ?thesis
      by (auto simp: chain_inv_def s' nth_append work_append work_single)
  next
    case False
    with inv have k: "k = length ?c" by (simp add: chain_inv_def)
    with inv show ?thesis
      by (auto simp: chain_inv_def s' nth_append work_append work_single)
  qed
  then show ?thesis ..
next
  case (Start i n)
  let ?c = "processingChain s"
  from step Start have g: "i < length ?c" "snd (?c ! i) = Waiting" "predecessor_fulfilled ?c i"
    by (auto simp: chain_step_def split: if_splits)
  have i: "i = k" by (rule inv_startable [OF inv g])
  from step Start g have s': "processingChain s' = ?c[k := (fst (?c ! k), Running n)]"
    "trace s' = trace s @ [Started k]" "pouch_of s' = pouch_of s"
    by (auto simp: chain_step_def set_link_fields i)
  have "chain_inv pf st0 s' k"
  proof (rule inv_stay [OF inv _ s'(1)])
    show "k < length ?c" using g i by simp
    show "Running n \<noteq> Settled" by simp
    show "work (trace s') = serial k @ events_of k (Running n)"
      using inv g i by (simp add: chain_inv_def s' work_append work_single)
    show "effect_of pf (fst (?c ! k)) (Running n)
            (foldl (\<lambda>st ch. process pf ch st) st0 (map fst (take k ?c))) (pouch_of s')"
      using inv g i by (simp add: chain_inv_def s')
  qed
  then show ?thesis ..
next
  case (Tick i)
  let ?c = "processingChain s"
  from step Tick obtain n where g: "i < length ?c" "snd (?c ! i) = Running (Suc n)"
    by (auto simp: chain_step_def split: if_splits link.splits nat.splits)
  have i: "i = k" by (rule inv_active [OF inv g(1)]) (simp_all add: g)
  from step Tick g have s': "processingChain s' = ?c[k := (fst (?c ! k), Running n)]"
    "trace s' = trace s" "pouch_of s' = pouch_of s"
    by (auto simp: chain_step_def set_link_fields i)
  have "chain_inv pf st0 s' k"
  proof (rule inv_stay [OF inv _ s'(1)])
    show "k < length ?c" using g i by simp
    show "Running n \<noteq> Settled" by simp
    show "work (trace s') = serial k @ events_of k (Running n)"
      using inv g i by (simp add: chain_inv_def s')
    show "effect_of pf (fst (?c ! k)) (Running n)
            (foldl (\<lambda>st ch. process pf ch st) st0 (map fst (take k ?c))) (pouch_of s')"
      using inv g i by (simp add: chain_inv_def s')
  qed
  then show ?thesis ..
next
  case (Finish i)
  let ?c = "processingChain s"
  let ?base = "foldl (\<lambda>st ch. process pf ch st) st0 (map fst (take k ?c))"
  from step Finish have g: "i < length ?c" "snd (?c ! i) = Running 0"
    by (auto simp: chain_step_def split: if_splits)
  have i: "i = k" by (rule inv_active [OF inv g(1)]) (simp_all add: g)
  have k: "k < length ?c" using g i by simp
  have b: "pouch_of s = ?base" "work (trace s) = serial k @ [Started k]"
    using inv g i by (simp_all add: chain_inv_def)
  obtain r st' where h: "handleChange pf (fst (?c ! k)) (pouch_of s) = (r, st')"
    by (cases "handleChange pf (fst (?c ! k)) (pouch_of s)")
  show ?thesis
  proof (cases r)
    case (Inl e)
    from step Finish g h Inl have s': "processingChain s' = ?c[k := (fst (?c ! k), Rejected e)]"
      "trace s' = trace s @ [Finished k]" "pouch_of s' = st'"
      by (auto simp: chain_step_def set_link_fields i)
    have "chain_inv pf st0 s' k"
    proof (rule inv_stay [OF inv k s'(1)])
      show "Rejected e \<noteq> Settled" by simp
      show "work (trace s') = serial k @ events_of k (Rejected e)"
        by (simp add: s' b work_append work_single)
      show "effect_of pf (fst (?c ! k)) (Rejected e) ?base (pouch_of s')"
        using h Inl by (simp add: s' b)
    qed
    then show ?thesis ..
  next
    case (Inr u)
    from step Finish g h Inr have s': "processingChain s' = ?c[k := (fst (?c ! k), Settled)]"
      "trace s' = trace s @ [Finished k]" "pouch_of s' = st'"
      by (auto simp: chain_step_def set_link_fields i)
    have "chain_inv pf st0 s' (Suc k)"
    proof (rule inv_advance [OF inv k s'(1)])
      show "work (trace s') = serial (Suc k)"
        by (simp add: s' b work_append work_single serial_Suc)
      show "pouch_of s' = process pf (fst (?c ! k)) ?base"
        using process_cases(1) [of pf "fst (?c ! k)" ?base u st'] h Inr by (simp add: s' b)
    qed
    then show ?thesis ..
  qed
next
  case (Catch i)
  let ?c = "processingChain s"
  let ?base = "foldl (\<lambda>st ch. process pf ch st) st0 (map fst (take k ?c))"
  from step Catch obtain e where g: "i < length ?c" "snd (?c ! i) = Rejected e"
    by (auto simp: chain_step_def split: if_splits link.splits)
  have i: "i = k" by (rule inv_active [OF inv g(1)]) (simp_all add: g)
  have k: "k < length ?c" using g i by simp
  have b: "handleChange pf (fst (?c ! k)) ?base = (Inl e, pouch_of s)"
    "work (trace s) = serial k @ [Started k, Finished k]"
    using inv g i by (simp_all add: chain_inv_def)
  from step Catch g have s': "processingChain s' = ?c[k := (fst (?c ! k), Settled)]"
    "trace s' = trace s"
    "pouch_of s' = (pouch_of s)\<lparr>console := console (pouch_of s)
        @ [ConsoleError ''[EncryptedPouch] handleChange error:'' e]\<rparr>"
    by (auto simp: chain_step_def set_link_fields i)
  have "chain_inv pf st0 s' (Suc k)"
  proof (rule inv_advance [OF inv k s'(1)])
    show "work (trace s') = serial (Suc k)"
      by (simp add: s' b serial_Suc)
    show "pouch_of s' = process pf (fst (?c ! k)) ?base"
      using process_cases(2) [OF b(1)] by (simp add: s')
  qed
  then show ?thesis ..
qed

lemma step_changes:
  "chain_step pf a s = Some s' \<Longrightarrow>
     map fst (processingChain s') = map fst (processingChain s) @ arrivals [a]"
  by (cases a)
     (auto simp: chain_step_def set_link_fields map_fst_update
        split: if_splits link.splits nat.splits prod.splits sum.splits)

lemma run_inv:
  assumes "run pf schedule s = Some s'" "chain_inv pf st0 s k"
  shows "\<exists>k'. chain_inv pf st0 s' k'"
  using assms
proof (induction schedule arbitrary: s k)
  case Nil
  then show ?case by auto
next
  case (Cons a rest)
  from Cons.prems(1) obtain s1 where s1: "chain_step pf a s = Some s1" "run pf rest s1 = Some s'"
    by (auto split: option.splits)
  from step_inv [OF Cons.prems(2) s1(1)] obtain k1 where "chain_inv pf st0 s1 k1" ..
  from Cons.IH [OF s1(2) this] show ?case .
qed

lemma run_changes:
  "run pf schedule s = Some s' \<Longrightarrow>
     map fst (processingChain s') = map fst (processingChain s) @ arrivals schedule"
proof (induction schedule arbitrary: s)
  case Nil
  then show ?case by simp
next
  case (Cons a rest)
  from Cons.prems obtain s1 where s1: "chain_step pf a s = Some s1" "run pf rest s1 = Some s'"
    by (auto split: option.splits)
  have "arrivals (a # rest) = arrivals [a] @ arrivals rest"
    using arrivals_append [of "[a]" rest] by simp
  with Cons.IH [OF s1(2)] step_changes [OF s1(1)] show ?case by simp
qed

lemma sum_list_update_less:
  "i < length xs \<Longrightarrow> f y < f (xs ! i) \<Longrightarrow>
     sum_list (map f (xs[i := y])) < (sum_list (map f xs) :: nat)"
proof (induction xs arbitrary: i)
  case Nil
  then show ?case by simp
next
  case (Cons x xs)
  then show ?case by (cases i) auto
qed

lemma remaining_set_link:
  assumes "i < length (processingChain s)" "turns l < turns (snd (processingChain s ! i))"
    and "processingChain s' = processingChain (set_link i l s)"
  shows "remaining s' < remaining s"
  unfolding remaining_def assms(3) set_link_fields
  using assms(1,2) by (intro sum_list_update_less) simp_all

text \<open>While a link is not fulfilled, the chain can move, and every move brings it closer.\<close>

lemma progress:
  assumes inv: "chain_inv pf st0 s k" and k: "k < length (processingChain s)"
  shows "\<exists>a s'. chain_step pf a s = Some s' \<and> remaining s' < remaining s \<and> arrivals [a] = []"
proof -
  let ?c = "processingChain s"
  have pre: "predecessor_fulfilled ?c k"
    using inv by (cases k) (auto simp: predecessor_fulfilled_def chain_inv_def)
  show ?thesis
  proof (cases "snd (?c ! k)")
    case Waiting
    let ?s' = "(set_link k (Running 0) s)\<lparr>trace := trace s @ [Started k]\<rparr>"
    have "chain_step pf (Start k 0) s = Some ?s'"
      using k Waiting pre by (simp add: chain_step_def)
    moreover have "remaining ?s' < remaining s"
      by (rule remaining_set_link [OF k, of "Running 0"]) (simp_all add: Waiting set_link_fields)
    ultimately show ?thesis by (intro exI [of _ "Start k 0"] exI [of _ ?s']) simp
  next
    case (Running m)
    show ?thesis
    proof (cases m)
      case 0
      obtain r st' where h: "handleChange pf (fst (?c ! k)) (pouch_of s) = (r, st')"
        by (cases "handleChange pf (fst (?c ! k)) (pouch_of s)")
      let ?l = "case r of Inl e \<Rightarrow> Rejected e | Inr u \<Rightarrow> Settled"
      let ?s' = "(set_link k ?l s)\<lparr>pouch_of := st', trace := trace s @ [Finished k]\<rparr>"
      have "chain_step pf (Finish k) s = Some ?s'"
        using k Running 0 h by (simp add: chain_step_def split: sum.splits)
      moreover have "remaining ?s' < remaining s"
        by (rule remaining_set_link [OF k, of ?l])
           (simp_all add: Running 0 set_link_fields split: sum.splits)
      ultimately show ?thesis by (intro exI [of _ "Finish k"] exI [of _ ?s']) simp
    next
      case (Suc n)
      let ?s' = "set_link k (Running n) s"
      have "chain_step pf (Tick k) s = Some ?s'"
        using k Running Suc by (simp add: chain_step_def)
      moreover have "remaining ?s' < remaining s"
        by (rule remaining_set_link [OF k, of "Running n"]) (simp_all add: Running Suc)
      ultimately show ?thesis by (intro exI [of _ "Tick k"] exI [of _ ?s']) simp
    qed
  next
    case (Rejected e)
    let ?s' = "(set_link k Settled s)\<lparr>pouch_of := (pouch_of s)
        \<lparr>console := console (pouch_of s)
           @ [ConsoleError ''[EncryptedPouch] handleChange error:'' e]\<rparr>\<rparr>"
    have "chain_step pf (Catch k) s = Some ?s'"
      using k Rejected by (simp add: chain_step_def)
    moreover have "remaining ?s' < remaining s"
      by (rule remaining_set_link [OF k, of Settled]) (simp_all add: Rejected set_link_fields)
    ultimately show ?thesis by (intro exI [of _ "Catch k"] exI [of _ ?s']) simp
  next
    case Settled
    with inv k show ?thesis by (simp add: chain_inv_def)
  qed
qed

lemma inv_settled:
  assumes "chain_inv pf st0 s k"
  shows "settled s \<longleftrightarrow> k = length (processingChain s)"
proof
  assume "settled s"
  then have "\<forall>i < length (processingChain s). snd (processingChain s ! i) = Settled"
    by (simp add: settled_def)
  with assms show "k = length (processingChain s)"
    by (cases "k < length (processingChain s)") (auto simp: chain_inv_def)
next
  assume "k = length (processingChain s)"
  with assms have a: "\<forall>i < length (processingChain s). snd (processingChain s ! i) = Settled"
    by (simp add: chain_inv_def)
  show "settled s"
    unfolding settled_def
  proof
    fix l assume "l \<in> set (processingChain s)"
    then obtain i where "i < length (processingChain s)" "processingChain s ! i = l"
      by (auto simp: in_set_conv_nth)
    with a show "snd l = Settled" by auto
  qed
qed

lemma completion:
  assumes "chain_inv pf st0 s k"
  shows "\<exists>rest s'. run pf rest s = Some s' \<and> arrivals rest = [] \<and> settled s'"
  using assms
proof (induction "remaining s" arbitrary: s k rule: less_induct)
  case less
  show ?case
  proof (cases "k < length (processingChain s)")
    case True
    from progress [OF less.prems True] obtain a s1 where
      a: "chain_step pf a s = Some s1" "remaining s1 < remaining s" "arrivals [a] = []"
      by blast
    from step_inv [OF less.prems a(1)] obtain k1 where "chain_inv pf st0 s1 k1" ..
    from less.hyps [OF a(2) this] obtain rest s' where
      r: "run pf rest s1 = Some s'" "arrivals rest = []" "settled s'"
      by blast
    have "run pf (a # rest) s = Some s'" using a(1) r(1) by simp
    moreover have "arrivals (a # rest) = []"
      using arrivals_append [of "[a]" rest] a(3) r(2) by simp
    ultimately show ?thesis using r(3) by blast
  next
    case False
    with less.prems have "k = length (processingChain s)" by (simp add: chain_inv_def)
    with inv_settled [OF less.prems] have "settled s" by simp
    then have "run pf [] s = Some s \<and> arrivals [] = [] \<and> settled s" by simp
    then show ?thesis by blast
  qed
qed

lemma serial_prefix: "k \<le> n \<Longrightarrow> \<exists>rest. serial k @ rest = serial n"
proof (induction n)
  case 0
  then show ?case by simp
next
  case (Suc n)
  show ?case
  proof (cases "k = Suc n")
    case True
    then show ?thesis by simp
  next
    case False
    with Suc.prems have "k \<le> n" by simp
    from Suc.IH [OF this] obtain rest where "serial k @ rest = serial n" ..
    then have "serial k @ (rest @ [Started n, Finished n]) = serial (Suc n)"
      by (simp add: serial_Suc)
    then show ?thesis ..
  qed
qed

lemma events_prefix: "\<exists>rest. events_of k l @ rest = [Started k, Finished k]"
  by (cases l) auto

lemma inv_trace:
  assumes "chain_inv pf st0 s k"
  shows "\<exists>rest. work (trace s) @ rest = serial (length (processingChain s))"
proof (cases "k < length (processingChain s)")
  case True
  let ?l = "snd (processingChain s ! k)"
  from True have "Suc k \<le> length (processingChain s)" by simp
  from serial_prefix [OF this] obtain r1 where
    r1: "serial (Suc k) @ r1 = serial (length (processingChain s))" ..
  from events_prefix [of k ?l] obtain r2 where r2: "events_of k ?l @ r2 = [Started k, Finished k]" ..
  have "work (trace s) = serial k @ events_of k ?l"
    using assms True by (simp add: chain_inv_def)
  then have "work (trace s) @ (r2 @ r1) = serial k @ (events_of k ?l @ r2) @ r1" by simp
  also have "\<dots> = serial (length (processingChain s))"
    unfolding r2 using r1 by (simp add: serial_Suc)
  finally show ?thesis ..
next
  case False
  with assms have "work (trace s) @ [] = serial (length (processingChain s))"
    by (simp add: chain_inv_def)
  then show ?thesis ..
qed

lemma inv_order:
  assumes "chain_inv pf st0 s k" "i < j" "j < length (processingChain s)"
    and "snd (processingChain s ! j) \<noteq> Waiting"
  shows "snd (processingChain s ! i) = Settled"
proof -
  have "j \<le> k" using assms by (cases "k < j") (auto simp: chain_inv_def)
  with assms show ?thesis by (simp add: chain_inv_def)
qed

lemma inv_pouch:
  assumes "chain_inv pf st0 s k" "settled s"
  shows "pouch_of s = foldl (\<lambda>st ch. process pf ch st) st0 (map fst (processingChain s))"
  using assms inv_settled [OF assms(1)] by (simp add: chain_inv_def)

text \<open>
  Claim C5. Take any schedule of the chain that can run from the initial state: changes
  arrive at any moment, and every \<open>handleChange\<close> takes any number of turns. Then the
  links of the chain are the changes in the order of their arrival; the starts and ends of
  \<open>handleChange\<close> are, in this order, a beginning of start 0, end 0, start 1, end 1, and so
  on, so that the changes are handled in the order of their arrival, one at a time; no
  link has begun before every link before it is fulfilled; when every link is fulfilled,
  the store object is the one obtained by handling the changes one after the other in the
  order of their arrival, an exception of \<open>handleChange\<close> being logged and nothing more;
  while some link is not fulfilled the chain can move; and from every state the chain can
  run, without further arrivals, to a state in which every link is fulfilled.
\<close>

theorem serialized_processing:
  assumes "run pf schedule (initial_chain st0) = Some s"
  shows "map fst (processingChain s) = arrivals schedule
    \<and> (\<exists>rest. work (trace s) @ rest = serial (length (processingChain s)))
    \<and> (\<forall>i j. i < j \<and> j < length (processingChain s) \<and> snd (processingChain s ! j) \<noteq> Waiting
           \<longrightarrow> snd (processingChain s ! i) = Settled)
    \<and> (settled s \<longrightarrow>
          pouch_of s = foldl (\<lambda>st ch. process pf ch st) st0 (arrivals schedule))
    \<and> (\<not> settled s \<longrightarrow> (\<exists>a s'. arrivals [a] = [] \<and> chain_step pf a s = Some s'))
    \<and> (\<exists>rest s'. run pf rest s = Some s' \<and> arrivals rest = [] \<and> settled s'
          \<and> pouch_of s' = foldl (\<lambda>st ch. process pf ch st) st0 (arrivals schedule))"
proof -
  from run_inv [OF assms chain_inv_initial] obtain k where inv: "chain_inv pf st0 s k" ..
  have 1: "map fst (processingChain s) = arrivals schedule"
    using run_changes [OF assms] by (simp add: initial_chain_def)
  have 2: "\<exists>rest. work (trace s) @ rest = serial (length (processingChain s))"
    by (rule inv_trace [OF inv])
  have 3: "snd (processingChain s ! i) = Settled"
    if "i < j \<and> j < length (processingChain s) \<and> snd (processingChain s ! j) \<noteq> Waiting" for i j
    using inv_order [OF inv, of i j] that by simp
  have 4: "pouch_of s = foldl (\<lambda>st ch. process pf ch st) st0 (arrivals schedule)" if "settled s"
    using inv_pouch [OF inv that] by (simp add: 1)
  have 5: "\<exists>a s'. arrivals [a] = [] \<and> chain_step pf a s = Some s'" if "\<not> settled s"
  proof -
    from that inv_settled [OF inv] inv have "k < length (processingChain s)"
      by (simp add: chain_inv_def)
    from progress [OF inv this] show ?thesis by blast
  qed
  have 6: "\<exists>rest s'. run pf rest s = Some s' \<and> arrivals rest = [] \<and> settled s'
          \<and> pouch_of s' = foldl (\<lambda>st ch. process pf ch st) st0 (arrivals schedule)"
  proof -
    from completion [OF inv] obtain rest s' where
      r: "run pf rest s = Some s'" "arrivals rest = []" "settled s'"
      by blast
    have whole: "run pf (schedule @ rest) (initial_chain st0) = Some s'"
      using assms r(1) by (simp add: run_append)
    from run_inv [OF whole chain_inv_initial] obtain k' where inv': "chain_inv pf st0 s' k'" ..
    have "map fst (processingChain s') = arrivals schedule"
      using run_changes [OF whole] r(2) by (simp add: initial_chain_def arrivals_append)
    with inv_pouch [OF inv' r(3)] r show ?thesis by auto
  qed
  from 1 2 3 4 5 6 show ?thesis by blast
qed

lemma handleChange_bare:
  assumes "\<not> startsWith i (js ''_design/'')" "parseFullId i = Some (t, d)"
  shows "handleChange pf (bare_change i) st = call_listener (OnDelete [(t, [d])]) st"
  using assms by (simp add: handleChange_def bare_change_def bare_doc_def)

lemma grumpy_fields:
  "listener grumpy_pouch = grumpy_listener" "calls grumpy_pouch = []" "console grumpy_pouch = []"
  by (simp_all add: grumpy_pouch_def toy_pouch_def new_EncryptedPouch_def)

lemma grumpy_throws:
  "listener_throws grumpy_listener (OnDelete [(js ''expenses'', [js ''old''])]) = Some boom"
  "listener_throws grumpy_listener (OnDelete [(js ''tasks'', [js ''t1''])]) = None"
  using tables_distinct by (auto simp: grumpy_listener_def)

lemma handleChange_old:
  "listener st = grumpy_listener \<Longrightarrow>
   handleChange toy_platform (bare_change (js ''expenses_old'')) st
     = (Inl boom, st\<lparr>calls := calls st @ [OnDelete [(js ''expenses'', [js ''old''])]]\<rparr>)"
  by (simp add: handleChange_bare [OF not_design(1) parse_old] call_listener_def grumpy_throws)

lemma handleChange_task:
  "listener st = grumpy_listener \<Longrightarrow>
   handleChange toy_platform (bare_change (js ''tasks_t1'')) st
     = (Inr (), st\<lparr>calls := calls st @ [OnDelete [(js ''tasks'', [js ''t1''])]]\<rparr>)"
  by (simp add: handleChange_bare [OF not_design_toy(2) parse_task] call_listener_def grumpy_throws)

lemma run_two_changes:
  "run toy_platform two_changes (initial_chain grumpy_pouch) = Some two_changes_end"
  by (simp add: two_changes_def two_changes_end_def initial_chain_def chain_step_def set_link_def
      predecessor_fulfilled_def handleChange_old handleChange_task grumpy_fields)

lemma run_two_changes_middle:
  "run toy_platform (take 3 two_changes) (initial_chain grumpy_pouch) = Some two_changes_middle"
  by (simp add: two_changes_def two_changes_middle_def initial_chain_def chain_step_def
      set_link_def predecessor_fulfilled_def)

lemma arrivals_two_changes:
  "arrivals two_changes = [bare_change (js ''expenses_old''), bare_change (js ''tasks_t1'')]"
  "arrivals (take 3 two_changes)
     = [bare_change (js ''expenses_old''), bare_change (js ''tasks_t1'')]"
  by (simp_all add: two_changes_def)

text \<open>
  Claim C5, witness: two changes; the first takes two turns and the second arrives while
  it is handled; the delete callback throws for the first. The second link cannot start
  before the first is fulfilled; at the end both deletions have reached the listener, in
  the order of the changes, and the exception has been logged.
\<close>

theorem serialized_processing_witness:
  "run toy_platform two_changes (initial_chain grumpy_pouch) = Some two_changes_end
   \<and> map fst (processingChain two_changes_end)
       = [bare_change (js ''expenses_old''), bare_change (js ''tasks_t1'')]
   \<and> (\<exists>rest. work (trace two_changes_end) @ rest = serial 2)
   \<and> (0::nat) < 1 \<and> 1 < length (processingChain two_changes_end)
   \<and> snd (processingChain two_changes_end ! 1) \<noteq> Waiting
   \<and> snd (processingChain two_changes_end ! 0) = Settled
   \<and> settled two_changes_end
   \<and> pouch_of two_changes_end
       = foldl (\<lambda>st ch. process toy_platform ch st) grumpy_pouch
           [bare_change (js ''expenses_old''), bare_change (js ''tasks_t1'')]
   \<and> calls (pouch_of two_changes_end)
       = [OnDelete [(js ''expenses'', [js ''old''])], OnDelete [(js ''tasks'', [js ''t1''])]]
   \<and> console (pouch_of two_changes_end)
       = [ConsoleError ''[EncryptedPouch] handleChange error:'' boom]
   \<and> run toy_platform (take 3 two_changes) (initial_chain grumpy_pouch) = Some two_changes_middle
   \<and> \<not> settled two_changes_middle
   \<and> chain_step toy_platform (Start 1 0) two_changes_middle = None
   \<and> (\<exists>a s'. arrivals [a] = [] \<and> chain_step toy_platform a two_changes_middle = Some s')"
proof -
  note e = serialized_processing [OF run_two_changes]
  note m = serialized_processing [OF run_two_changes_middle]
  have len: "length (processingChain two_changes_end) = 2"
    "snd (processingChain two_changes_end ! 1) \<noteq> Waiting"
    by (simp_all add: two_changes_end_def)
  have s: "settled two_changes_end" "\<not> settled two_changes_middle"
    by (simp_all add: settled_def two_changes_end_def two_changes_middle_def)
  have r: "chain_step toy_platform (Start 1 0) two_changes_middle = None"
    by (simp add: chain_step_def two_changes_middle_def predecessor_fulfilled_def)
  have c: "calls (pouch_of two_changes_end)
       = [OnDelete [(js ''expenses'', [js ''old''])], OnDelete [(js ''tasks'', [js ''t1''])]]"
    "console (pouch_of two_changes_end)
       = [ConsoleError ''[EncryptedPouch] handleChange error:'' boom]"
    by (simp_all add: two_changes_end_def)
  from e have e1: "map fst (processingChain two_changes_end)
       = [bare_change (js ''expenses_old''), bare_change (js ''tasks_t1'')]"
    by (simp add: arrivals_two_changes)
  from e have e2: "\<exists>rest. work (trace two_changes_end) @ rest = serial 2"
    by (simp add: len)
  from e len have e3: "snd (processingChain two_changes_end ! 0) = Settled"
    by (metis zero_less_one one_less_numeral_iff semiring_norm(76))
  from e s(1) have e4: "pouch_of two_changes_end
       = foldl (\<lambda>st ch. process toy_platform ch st) grumpy_pouch
           [bare_change (js ''expenses_old''), bare_change (js ''tasks_t1'')]"
    by (simp add: arrivals_two_changes)
  from m s(2) have m5: "\<exists>a s'. arrivals [a] = [] \<and> chain_step toy_platform a two_changes_middle = Some s'"
    by blast
  from run_two_changes run_two_changes_middle e1 e2 len e3 s e4 c r m5
  show ?thesis by simp
qed


end
